theory Spec2Isabelle
  imports Main "HOL-Library.AList" "HOL-Library.Char_ord" "HOL-Library.List_Lexorder"
    "HOL-Library.Multiset" "HOL-Library.Sublist"
begin

section \<open>Regular expressions as used by \<^verbatim>\<open>graph/tags.go\<close>\<close>

text \<open>
  The two patterns of the source are compiled with Go's \<^verbatim>\<open>regexp.MustCompile\<close> and used
  through \<^verbatim>\<open>MatchString\<close>, which reports whether the string \<^emph>\<open>contains\<close> a match. A pattern
  is a body together with the two anchors \<^verbatim>\<open>^\<close> and \<^verbatim>\<open>$\<close> (without the multi-line flag
  they stand for the beginning and the end of the text). Bodies are matched by derivatives.
\<close>

datatype regex =
    Nothing
  | Empty
  | OneOf "char list"
  | Or regex regex
  | Then regex regex
  | Many regex
  | AtMost nat regex

definition Some1 :: "regex \<Rightarrow> regex" where
  "Some1 r = Then r (Many r)"

fun nullable :: "regex \<Rightarrow> bool" where
  "nullable Nothing = False"
| "nullable Empty = True"
| "nullable (OneOf cs) = False"
| "nullable (Or r s) = (nullable r \<or> nullable s)"
| "nullable (Then r s) = (nullable r \<and> nullable s)"
| "nullable (Many r) = True"
| "nullable (AtMost n r) = True"

fun deriv :: "char \<Rightarrow> regex \<Rightarrow> regex" where
  "deriv c Nothing = Nothing"
| "deriv c Empty = Nothing"
| "deriv c (OneOf cs) = (if c \<in> set cs then Empty else Nothing)"
| "deriv c (Or r s) = Or (deriv c r) (deriv c s)"
| "deriv c (Then r s) =
     (if nullable r then Or (Then (deriv c r) s) (deriv c s) else Then (deriv c r) s)"
| "deriv c (Many r) = Then (deriv c r) (Many r)"
| "deriv c (AtMost 0 r) = Nothing"
| "deriv c (AtMost (Suc n) r) = Then (deriv c r) (AtMost n r)"

fun matches :: "regex \<Rightarrow> string \<Rightarrow> bool" where
  "matches r [] = nullable r"
| "matches r (c # cs) = matches (deriv c r) cs"

text \<open>Some prefix of the string matches the body; with \<open>eol\<close> the prefix is the whole string.\<close>

fun match_here :: "bool \<Rightarrow> regex \<Rightarrow> string \<Rightarrow> bool" where
  "match_here eol r [] = nullable r"
| "match_here eol r (c # cs) = ((\<not> eol \<and> nullable r) \<or> match_here eol (deriv c r) cs)"

text \<open>A match may start at any position, unless the pattern begins with \<^verbatim>\<open>^\<close>.\<close>

fun match_from :: "bool \<Rightarrow> regex \<Rightarrow> string \<Rightarrow> bool" where
  "match_from eol r [] = match_here eol r []"
| "match_from eol r (c # cs) = (match_here eol r (c # cs) \<or> match_from eol r cs)"

datatype pattern = Pattern (bol: bool) (body: regex) (eol: bool)

fun MatchString :: "pattern \<Rightarrow> string \<Rightarrow> bool" where
  "MatchString (Pattern b r e) s = (if b then match_here e r s else match_from e r s)"

definition lower :: "char list" where
  "lower = ''abcdefghijklmnopqrstuvwxyz''"

definition upper :: "char list" where
  "upper = ''ABCDEFGHIJKLMNOPQRSTUVWXYZ''"

definition digit :: "char list" where
  "digit = ''0123456789''"

text \<open>Perl's \<^verbatim>\<open>\w\<close> in Go (RE2) syntax is the ASCII class \<^verbatim>\<open>[0-9A-Za-z_]\<close>.\<close>

definition word :: "char list" where
  "word = digit @ upper @ lower @ ''_''"

text \<open>\<^verbatim>\<open>validTagName = regexp.MustCompile(`^[\w][\w.-]{0,127}$`)\<close>\<close>

definition validTagName :: pattern where
  "validTagName = Pattern True (Then (OneOf word) (AtMost 127 (OneOf (word @ ''.-'')))) True"

text \<open>\<^verbatim>\<open>validDigest = regexp.MustCompile(`[a-zA-Z0-9-_+.]+:[a-fA-F0-9]+`)\<close>\<close>

definition validDigest :: pattern where
  "validDigest = Pattern False
     (Then (Some1 (OneOf (lower @ upper @ digit @ ''-_+.'')))
        (Then (OneOf '':'') (Some1 (OneOf (''abcdef'' @ ''ABCDEF'' @ digit))))) False"

section \<open>Data model\<close>

text \<open>
  \<^verbatim>\<open>type Repository map[string]string\<close> and \<^verbatim>\<open>Repositories map[string]Repository\<close>. A Go map
  is iterated in an order the runtime chooses, and \<^verbatim>\<open>getRepositoryList\<close>, \<^verbatim>\<open>GetImage\<close> and
  \<^verbatim>\<open>ByID\<close> iterate, so a map is an association list here: \<open>map_of\<close> is the lookup, the
  order of the list is the order in which \<^verbatim>\<open>range\<close> visits the entries.
\<close>

type_synonym Repository = "(string \<times> string) list"

type_synonym chan = nat

record Image =
  ID :: string

text \<open>
  The errors of the source, one constructor for each message: of \<^verbatim>\<open>ioutil.ReadFile\<close> (the
  file does not exist, or another failure), \<^verbatim>\<open>json.Unmarshal\<close>, \<^verbatim>\<open>ioutil.WriteFile\<close>, the
  graph, and those made with \<^verbatim>\<open>fmt.Errorf\<close> and \<^verbatim>\<open>errors.New\<close>. \<open>NilPointer\<close>, \<open>SliceBounds\<close>,
  \<open>IndexOutOfRange\<close> and \<open>CloseOfClosedChannel\<close> are the panics of the Go runtime.
\<close>

datatype error =
    NotExist
  | ReadError
  | SyntaxError
  | WriteError
  | GraphError string
  | NilPointer
  | SliceBounds
  | IndexOutOfRange
  | CloseOfClosedChannel
  | RepoNameEmpty
  | ScratchReserved
  | TagNameEmpty
  | IllegalTagName string
  | DigestEmpty
  | IllegalDigest string
  | ConflictTag string string
  | ConflictDigest string string
  | NoSuchReference string string
  | NoSuchRepository string
  | InProgress string string
  | UnknownPoolType

record TagStore =
  Repositories :: "(string \<times> Repository) list"
  pullingPool :: "string \<rightharpoonup> chan"
  pushingPool :: "string \<rightharpoonup> chan"

text \<open>
  The file at \<^verbatim>\<open>store.path\<close>: absent, unreadable, not JSON, or a JSON document whose
  \<^verbatim>\<open>Repositories\<close> object is given. \<open>write_fails\<close> says that \<^verbatim>\<open>ioutil.WriteFile\<close> returns
  an error, and \<open>failed_write_leaves\<close> is what the file holds then: what it held before when
  it could not be opened for writing, and otherwise what the truncation on opening and a
  partial write have left of it (an empty or cut-off file is not JSON).
\<close>

datatype file_state = NoFile | Unreadable | Garbage | Json "(string \<times> Repository) list"

record fs =
  contents :: file_state
  write_fails :: bool
  failed_write_leaves :: file_state

text \<open>
  The functions, the table and the image graph that \<^verbatim>\<open>graph/tags.go\<close> imports from the
  packages \<^verbatim>\<open>registry\<close>, \<^verbatim>\<open>pkg/parsers\<close>, \<^verbatim>\<open>utils\<close> and from \<^verbatim>\<open>Graph\<close> are parameters
  of the model. \<open>graph_Get\<close> returns the pair \<^verbatim>\<open>(*image.Image, error)\<close> as a sum, \<open>None\<close>
  being the nil pointer.
\<close>

record env =
  registry_NormalizeLocalName :: "string \<Rightarrow> string"
  registry_RepositoryNameHasIndex :: "string \<Rightarrow> bool"
  registry_SplitReposName :: "string \<Rightarrow> bool \<Rightarrow> string \<times> string"
  registry_RegistryList :: "string list"
  parsers_ParseRepositoryTag :: "string \<Rightarrow> string \<times> string"
  utils_ImageReference :: "string \<Rightarrow> string \<Rightarrow> string"
  graph_Get :: "string \<Rightarrow> error + Image option"

definition DEFAULTTAG :: string where
  "DEFAULTTAG = ''latest''"

section \<open>Persistence\<close>

text \<open>
  \<^verbatim>\<open>save\<close>: \<^verbatim>\<open>json.Marshal(store)\<close> does not fail on a map of maps of strings; the document
  is written in place by \<^verbatim>\<open>ioutil.WriteFile(store.path, jsonData, 0600)\<close>, which truncates
  the file on opening it, so that a write that fails can leave any of the states above.
\<close>

definition save :: "TagStore \<Rightarrow> fs \<Rightarrow> error option \<times> fs" where
  "save store f =
     (if write_fails f then (Some WriteError, f\<lparr>contents := failed_write_leaves f\<rparr>)
      else (None, f\<lparr>contents := Json (Repositories store)\<rparr>))"

text \<open>
  \<^verbatim>\<open>json.Unmarshal(jsonData, store)\<close> decodes into the map the store already holds: a non-nil
  map is reused and keeps its entries, and each key of the document is stored with a freshly
  decoded value.
\<close>

fun unmarshal :: "(string \<times> Repository) list \<Rightarrow> (string \<times> Repository) list \<Rightarrow> (string \<times> Repository) list" where
  "unmarshal [] repos = repos"
| "unmarshal ((name, r) # doc) repos = unmarshal doc (AList.update name r repos)"

definition reload :: "TagStore \<Rightarrow> fs \<Rightarrow> error + TagStore" where
  "reload store f =
     (case contents f of
        NoFile \<Rightarrow> Inl NotExist
      | Unreadable \<Rightarrow> Inl ReadError
      | Garbage \<Rightarrow> Inl SyntaxError
      | Json doc \<Rightarrow> Inr (store\<lparr>Repositories := unmarshal doc (Repositories store)\<rparr>))"

text \<open>\<^verbatim>\<open>NewTagStore\<close>: load the file if it exists, otherwise create it.\<close>

definition NewTagStore :: "fs \<Rightarrow> error + TagStore \<times> fs" where
  "NewTagStore f =
     (let store = \<lparr>Repositories = [], pullingPool = Map.empty, pushingPool = Map.empty\<rparr> in
      case reload store f of
        Inl err \<Rightarrow>
          (if err = NotExist then
             (case save store f of
                (Some err', f') \<Rightarrow> Inl err'
              | (None, f') \<Rightarrow> Inr (store, f'))
           else Inl err)
      | Inr store' \<Rightarrow> Inr (store', f))"

section \<open>Validation\<close>

definition validateRepoName :: "string \<Rightarrow> error option" where
  "validateRepoName name =
     (if name = [] then Some RepoNameEmpty
      else if name = ''scratch'' then Some ScratchReserved
      else None)"

definition ValidateTagName :: "string \<Rightarrow> error option" where
  "ValidateTagName name =
     (if name = [] then Some TagNameEmpty
      else if \<not> MatchString validTagName name then Some (IllegalTagName name)
      else None)"

definition validateDigest :: "string \<Rightarrow> error option" where
  "validateDigest dgst =
     (if dgst = [] then Some DigestEmpty
      else if \<not> MatchString validDigest dgst then Some (IllegalDigest dgst)
      else None)"

section \<open>Candidate enumeration and lookups\<close>

definition candidate :: "(string \<times> Repository) list \<Rightarrow> string \<Rightarrow> (string \<times> Repository) list" where
  "candidate repos name = (case map_of repos name of Some r \<Rightarrow> [(name, r)] | None \<Rightarrow> [])"

text \<open>
  The loop over \<^verbatim>\<open>registry.RegistryList\<close>: every entry is a default registry, and every
  entry but the first (\<^verbatim>\<open>if i < 1 { continue }\<close>) is tried as a prefix.
\<close>

fun registry_loop :: "env \<Rightarrow> (string \<times> Repository) list \<Rightarrow> string \<Rightarrow> nat \<Rightarrow> string list \<Rightarrow> (string \<times> Repository) list" where
  "registry_loop e repos repoName i [] = []"
| "registry_loop e repos repoName i (reg # regs) =
     (if i < 1 then []
      else candidate repos (registry_NormalizeLocalName e (reg @ ''/'' @ repoName)))
     @ registry_loop e repos repoName (i + 1) regs"

definition non_default :: "env \<Rightarrow> string \<Rightarrow> string \<times> Repository \<Rightarrow> bool" where
  "non_default e repoName entry =
     (case registry_SplitReposName e (fst entry) False of
        (indexName, remoteName) \<Rightarrow>
          indexName \<noteq> [] \<and> remoteName = repoName \<and> indexName \<notin> set (registry_RegistryList e))"

definition getRepositoryList :: "env \<Rightarrow> TagStore \<Rightarrow> string \<Rightarrow> (string \<times> Repository) list" where
  "getRepositoryList e store repoName =
     candidate (Repositories store) repoName
     @ candidate (Repositories store) (registry_NormalizeLocalName e repoName)
     @ (if \<not> registry_RepositoryNameHasIndex e repoName then
          registry_loop e (Repositories store) repoName 0 (registry_RegistryList e)
          @ filter (non_default e repoName) (Repositories store)
        else [])"

definition Get :: "env \<Rightarrow> TagStore \<times> fs \<Rightarrow> string \<Rightarrow> (error + Repository option) \<times> TagStore" where
  "Get e w repoName =
     (case reload (fst w) (snd w) of
        Inl err \<Rightarrow> (Inl err, fst w)
      | Inr store \<Rightarrow>
          (case getRepositoryList e store repoName of
             [] \<Rightarrow> (Inr None, store)
           | (name, repoRefs) # rest \<Rightarrow> (Inr (Some repoRefs), store)))"

definition HasPrefix :: "string \<Rightarrow> string \<Rightarrow> bool" where
  "HasPrefix s p = (take (length p) s = p)"

fun exact_ref :: "(string \<times> Repository) list \<Rightarrow> string \<Rightarrow> string option" where
  "exact_ref [] refOrID = None"
| "exact_ref ((name, repoRefs) # matching) refOrID =
     (case map_of repoRefs refOrID of
        Some revision \<Rightarrow> Some revision
      | None \<Rightarrow> exact_ref matching refOrID)"

fun prefix_ref :: "(string \<times> Repository) list \<Rightarrow> string \<Rightarrow> string option" where
  "prefix_ref [] refOrID = None"
| "prefix_ref ((name, repoRefs) # matching) refOrID =
     (case find (\<lambda>revision. HasPrefix revision refOrID) (map snd repoRefs) of
        Some revision \<Rightarrow> Some revision
      | None \<Rightarrow> prefix_ref matching refOrID)"

text \<open>\<^verbatim>\<open>GetImage\<close> takes the lock and reads \<^verbatim>\<open>store.Repositories\<close>; it does not call \<^verbatim>\<open>reload\<close>.\<close>

definition GetImage :: "env \<Rightarrow> TagStore \<times> fs \<Rightarrow> string \<Rightarrow> string \<Rightarrow> error + Image option" where
  "GetImage e w repoName refOrID =
     (let matching = getRepositoryList e (fst w) repoName in
      case exact_ref matching refOrID of
        Some revision \<Rightarrow> graph_Get e revision
      | None \<Rightarrow>
          (case prefix_ref matching refOrID of
             Some revision \<Rightarrow> graph_Get e revision
           | None \<Rightarrow> Inr None))"

definition LookupImage :: "env \<Rightarrow> TagStore \<times> fs \<Rightarrow> string \<Rightarrow> error + Image option" where
  "LookupImage e w name =
     (case parsers_ParseRepositoryTag e name of
        (repoName, ref) \<Rightarrow>
          (case GetImage e w repoName (if ref = [] then DEFAULTTAG else ref) of
             Inl err \<Rightarrow> Inl err
           | Inr (Some img) \<Rightarrow> Inr (Some img)
           | Inr None \<Rightarrow>
               (case graph_Get e name of
                  Inl err \<Rightarrow> Inl err
                | Inr img \<Rightarrow> Inr img)))"

section \<open>Tagging\<close>

text \<open>
  The name a binding is stored under: the normalized name, or its remote part when the
  caller asked to keep an unqualified name unqualified.
\<close>

definition local_name :: "env \<Rightarrow> string \<Rightarrow> bool \<Rightarrow> string" where
  "local_name e repoName keepUnqualified =
     (let normalized = registry_NormalizeLocalName e repoName in
      if keepUnqualified \<and> \<not> registry_RepositoryNameHasIndex e repoName
      then snd (registry_SplitReposName e normalized False)
      else normalized)"

text \<open>
  \<^verbatim>\<open>repo[tag] = img.ID\<close> on the map that \<^verbatim>\<open>store.Repositories[normalized]\<close> refers to,
  followed by \<^verbatim>\<open>return store.save()\<close>. Reading \<^verbatim>\<open>img.ID\<close> through a nil pointer panics.
\<close>

definition set_ref :: "TagStore \<Rightarrow> string \<Rightarrow> string \<Rightarrow> string \<Rightarrow> TagStore" where
  "set_ref store name ref imgID =
     store\<lparr>Repositories :=
       AList.update name
         (AList.update ref imgID (case map_of (Repositories store) name of Some r \<Rightarrow> r | None \<Rightarrow> []))
         (Repositories store)\<rparr>"

definition bind_and_save :: "TagStore \<Rightarrow> fs \<Rightarrow> string \<Rightarrow> string \<Rightarrow> Image option \<Rightarrow> error option \<times> TagStore \<times> fs" where
  "bind_and_save store f name ref img =
     (case img of
        None \<Rightarrow> (Some NilPointer, store, f)
      | Some i \<Rightarrow>
          (let store' = set_ref store name ref (ID i) in
           case save store' f of (err, f') \<Rightarrow> (err, store', f')))"

definition rename_notice :: "string \<Rightarrow> string \<Rightarrow> string \<Rightarrow> string" where
  "rename_notice normalized tag old =
     ''The image '' @ normalized @ '':'' @ tag
       @ '' already exists, renaming the old one with ID '' @ take 12 old @ '' to empty string''
       @ [CHR 0x0A]"

text \<open>
  The part of \<^verbatim>\<open>SetLoad\<close> after \<^verbatim>\<open>store.reload()\<close>. The writer \<^verbatim>\<open>out\<close> is \<open>None\<close> when nil
  and otherwise holds what has been written to it; \<^verbatim>\<open>old[:12]\<close> panics on a shorter \<open>old\<close>.
\<close>

definition SetLoad_reloaded :: "env \<Rightarrow> TagStore \<Rightarrow> fs \<Rightarrow> string \<Rightarrow> string \<Rightarrow> Image option \<Rightarrow> bool \<Rightarrow> bool \<Rightarrow> string option
    \<Rightarrow> (error option \<times> TagStore \<times> fs) \<times> string option" where
  "SetLoad_reloaded e store f repoName tag img force keepUnqualified out =
     (let normalized = local_name e repoName keepUnqualified in
      case map_of (Repositories store) normalized of
        Some r \<Rightarrow>
          (case map_of r tag of
             Some old \<Rightarrow>
               if \<not> force then ((Some (ConflictTag tag old), store, f), out)
               else
                 (case img of
                    None \<Rightarrow> ((Some NilPointer, store, f), out)
                  | Some i \<Rightarrow>
                      if old \<noteq> ID i \<and> out \<noteq> None then
                        (if length old < 12 then ((Some SliceBounds, store, f), out)
                         else (bind_and_save store f normalized tag img,
                               map_option (\<lambda>text. text @ rename_notice normalized tag old) out))
                      else (bind_and_save store f normalized tag img, out))
           | None \<Rightarrow> (bind_and_save store f normalized tag img, out))
      | None \<Rightarrow>
          (bind_and_save (store\<lparr>Repositories := AList.update normalized [] (Repositories store)\<rparr>)
             f normalized tag img, out))"

definition SetLoad :: "env \<Rightarrow> TagStore \<times> fs \<Rightarrow> string \<Rightarrow> string \<Rightarrow> string \<Rightarrow> bool \<Rightarrow> bool \<Rightarrow> string option
    \<Rightarrow> (error option \<times> TagStore \<times> fs) \<times> string option" where
  "SetLoad e w repoName tag imageName force keepUnqualified out =
     (case LookupImage e w imageName of
        Inl err \<Rightarrow> ((Some err, w), out)
      | Inr img \<Rightarrow>
          (let tag' = (if tag = [] then DEFAULTTAG else tag) in
           case validateRepoName repoName of
             Some err \<Rightarrow> ((Some err, w), out)
           | None \<Rightarrow>
               (case ValidateTagName tag' of
                  Some err \<Rightarrow> ((Some err, w), out)
                | None \<Rightarrow>
                    (case reload (fst w) (snd w) of
                       Inl err \<Rightarrow> ((Some err, w), out)
                     | Inr store \<Rightarrow>
                         SetLoad_reloaded e store (snd w) repoName tag' img force keepUnqualified out))))"

definition Tag :: "env \<Rightarrow> TagStore \<times> fs \<Rightarrow> string \<Rightarrow> string \<Rightarrow> string \<Rightarrow> bool \<Rightarrow> bool \<Rightarrow> error option \<times> TagStore \<times> fs" where
  "Tag e w repoName tag imageName force keepUnqualified =
     fst (SetLoad e w repoName tag imageName force keepUnqualified None)"

text \<open>The part of \<^verbatim>\<open>SetDigest\<close> after \<^verbatim>\<open>store.reload()\<close>.\<close>

definition SetDigest_reloaded :: "env \<Rightarrow> TagStore \<Rightarrow> fs \<Rightarrow> string \<Rightarrow> string \<Rightarrow> Image option \<Rightarrow> bool
    \<Rightarrow> error option \<times> TagStore \<times> fs" where
  "SetDigest_reloaded e store f repoName digest img keepUnqualified =
     (let normalized = local_name e repoName keepUnqualified in
      case map_of (Repositories store) normalized of
        None \<Rightarrow>
          bind_and_save (store\<lparr>Repositories := AList.update normalized [] (Repositories store)\<rparr>)
            f normalized digest img
      | Some repoRefs \<Rightarrow>
          (case map_of repoRefs digest of
             Some oldID \<Rightarrow>
               (case img of
                  None \<Rightarrow> (Some NilPointer, store, f)
                | Some i \<Rightarrow>
                    if oldID \<noteq> ID i then (Some (ConflictDigest digest oldID), store, f)
                    else bind_and_save store f normalized digest img)
           | None \<Rightarrow> bind_and_save store f normalized digest img))"

definition SetDigest :: "env \<Rightarrow> TagStore \<times> fs \<Rightarrow> string \<Rightarrow> string \<Rightarrow> string \<Rightarrow> bool \<Rightarrow> error option \<times> TagStore \<times> fs" where
  "SetDigest e w repoName digest imageName keepUnqualified =
     (case LookupImage e w imageName of
        Inl err \<Rightarrow> (Some err, w)
      | Inr img \<Rightarrow>
          (case validateRepoName repoName of
             Some err \<Rightarrow> (Some err, w)
           | None \<Rightarrow>
               (case validateDigest digest of
                  Some err \<Rightarrow> (Some err, w)
                | None \<Rightarrow>
                    (case reload (fst w) (snd w) of
                       Inl err \<Rightarrow> (Some err, w)
                     | Inr store \<Rightarrow>
                         SetDigest_reloaded e store (snd w) repoName digest img keepUnqualified))))"

section \<open>Untagging\<close>

text \<open>
  The walk of \<^verbatim>\<open>Delete\<close> over the candidates stops at the first one that is deleted from:
  any candidate when \<^verbatim>\<open>ref\<close> is empty, otherwise one that holds \<^verbatim>\<open>ref\<close>.
\<close>

fun delete_walk :: "(string \<times> Repository) list \<Rightarrow> string \<Rightarrow> (string \<times> Repository) option" where
  "delete_walk [] ref = None"
| "delete_walk ((name, repoRefs) # matching) ref =
     (if ref = [] then Some (name, repoRefs)
      else if map_of repoRefs ref \<noteq> None then Some (name, repoRefs)
      else delete_walk matching ref)"

definition delete_from :: "TagStore \<Rightarrow> string \<Rightarrow> Repository \<Rightarrow> string \<Rightarrow> TagStore" where
  "delete_from store name repoRefs ref =
     (if ref = [] then store\<lparr>Repositories := AList.delete name (Repositories store)\<rparr>
      else
        (let repoRefs' = AList.delete ref repoRefs in
         if length repoRefs' = 0 then store\<lparr>Repositories := AList.delete name (Repositories store)\<rparr>
         else store\<lparr>Repositories := AList.update name repoRefs' (Repositories store)\<rparr>))"

definition Delete :: "env \<Rightarrow> TagStore \<times> fs \<Rightarrow> string \<Rightarrow> string \<Rightarrow> (bool \<times> error option) \<times> TagStore \<times> fs" where
  "Delete e w repoName ref =
     (case reload (fst w) (snd w) of
        Inl err \<Rightarrow> ((False, Some err), w)
      | Inr store \<Rightarrow>
          (let matching = getRepositoryList e store repoName in
           case delete_walk matching ref of
             Some (name, repoRefs) \<Rightarrow>
               (let store' = delete_from store name repoRefs ref in
                case save store' (snd w) of (err, f') \<Rightarrow> ((True, err), store', f'))
           | None \<Rightarrow>
               if matching \<noteq> [] then ((False, Some (NoSuchReference repoName ref)), store, snd w)
               else ((False, Some (NoSuchRepository repoName)), store, snd w)))"

section \<open>Reverse index\<close>

fun ByID_refs :: "env \<Rightarrow> string \<Rightarrow> Repository \<Rightarrow> (string \<rightharpoonup> string list) \<Rightarrow> (string \<rightharpoonup> string list)" where
  "ByID_refs e repoName [] byID = byID"
| "ByID_refs e repoName ((tag, imgID) # repository) byID =
     ByID_refs e repoName repository
       (let name = utils_ImageReference e repoName tag in
        case byID imgID of
          None \<Rightarrow> byID(imgID \<mapsto> [name])
        | Some names \<Rightarrow> byID(imgID \<mapsto> sort (names @ [name])))"

fun ByID_repos :: "env \<Rightarrow> (string \<times> Repository) list \<Rightarrow> (string \<rightharpoonup> string list) \<Rightarrow> (string \<rightharpoonup> string list)" where
  "ByID_repos e [] byID = byID"
| "ByID_repos e ((repoName, repository) # repos) byID =
     ByID_repos e repos (ByID_refs e repoName repository byID)"

text \<open>\<^verbatim>\<open>ByID\<close> takes the lock and reads \<^verbatim>\<open>store.Repositories\<close>; it does not call \<^verbatim>\<open>reload\<close>.\<close>

definition ByID :: "env \<Rightarrow> TagStore \<times> fs \<Rightarrow> (string \<rightharpoonup> string list)" where
  "ByID e w = ByID_repos e (Repositories (fst w)) Map.empty"

text \<open>\<^verbatim>\<open>strings.Split(s, sep)\<close> for a separator of one character.\<close>

fun Split :: "string \<Rightarrow> char \<Rightarrow> string list" where
  "Split [] sep = [[]]"
| "Split (c # cs) sep =
     (if c = sep then [] # Split cs sep
      else (case Split cs sep of [] \<Rightarrow> [[c]] | part # parts \<Rightarrow> (c # part) # parts))"

definition DeleteAll_name :: "env \<Rightarrow> TagStore \<times> fs \<Rightarrow> string \<Rightarrow> error option \<times> TagStore \<times> fs" where
  "DeleteAll_name e w name =
     (if CHR '':'' \<in> set name then
        (case Split name (CHR '':'') of
           p0 # p1 # rest \<Rightarrow> (case Delete e w p0 p1 of ((deleted, err), w') \<Rightarrow> (err, w'))
         | _ \<Rightarrow> (Some IndexOutOfRange, w))
      else (case Delete e w name [] of ((deleted, err), w') \<Rightarrow> (err, w')))"

fun DeleteAll_loop :: "env \<Rightarrow> TagStore \<times> fs \<Rightarrow> string list \<Rightarrow> error option \<times> TagStore \<times> fs" where
  "DeleteAll_loop e w [] = (None, w)"
| "DeleteAll_loop e w (name # names) =
     (case DeleteAll_name e w name of
        (Some err, w') \<Rightarrow> (Some err, w')
      | (None, w') \<Rightarrow> DeleteAll_loop e w' names)"

definition DeleteAll :: "env \<Rightarrow> TagStore \<times> fs \<Rightarrow> string \<Rightarrow> error option \<times> TagStore \<times> fs" where
  "DeleteAll e w imgID =
     (case ByID e w imgID of
        None \<Rightarrow> (None, w)
      | Some names \<Rightarrow> if length names = 0 then (None, w) else DeleteAll_loop e w names)"

section \<open>Pools of transfers in progress\<close>

text \<open>
  A \<^verbatim>\<open>chan struct{}\<close> is an index into the list of the channels made so far; the entry says
  whether the channel has been closed. \<^verbatim>\<open>make\<close> appends an open channel, \<^verbatim>\<open>close\<close> of a
  channel that is already closed panics.
\<close>

definition make_chan :: "bool list \<Rightarrow> chan \<times> bool list" where
  "make_chan chans = (length chans, chans @ [False])"

definition close_chan :: "bool list \<Rightarrow> chan \<Rightarrow> error + bool list" where
  "close_chan chans c =
     (if c < length chans \<and> \<not> chans ! c then Inr (chans[c := True])
      else Inl CloseOfClosedChannel)"

definition poolAdd :: "TagStore \<times> bool list \<Rightarrow> string \<Rightarrow> string \<Rightarrow> (chan option \<times> error option) \<times> TagStore \<times> bool list" where
  "poolAdd w kind key =
     (case pullingPool (fst w) key of
        Some c \<Rightarrow> ((Some c, Some (InProgress ''pull'' key)), w)
      | None \<Rightarrow>
          (case pushingPool (fst w) key of
             Some c \<Rightarrow> ((Some c, Some (InProgress ''push'' key)), w)
           | None \<Rightarrow>
               (case make_chan (snd w) of
                  (c, chans) \<Rightarrow>
                    if kind = ''pull'' then
                      ((Some c, None), (fst w)\<lparr>pullingPool := (pullingPool (fst w))(key \<mapsto> c)\<rparr>, chans)
                    else if kind = ''push'' then
                      ((Some c, None), (fst w)\<lparr>pushingPool := (pushingPool (fst w))(key \<mapsto> c)\<rparr>, chans)
                    else ((None, Some UnknownPoolType), fst w, chans))))"

definition poolRemove :: "TagStore \<times> bool list \<Rightarrow> string \<Rightarrow> string \<Rightarrow> error option \<times> TagStore \<times> bool list" where
  "poolRemove w kind key =
     (if kind = ''pull'' then
        (case pullingPool (fst w) key of
           Some c \<Rightarrow>
             (case close_chan (snd w) c of
                Inl err \<Rightarrow> (Some err, w)
              | Inr chans \<Rightarrow> (None, (fst w)\<lparr>pullingPool := (pullingPool (fst w))(key := None)\<rparr>, chans))
         | None \<Rightarrow> (None, w))
      else if kind = ''push'' then
        (case pushingPool (fst w) key of
           Some c \<Rightarrow>
             (case close_chan (snd w) c of
                Inl err \<Rightarrow> (Some err, w)
              | Inr chans \<Rightarrow> (None, (fst w)\<lparr>pushingPool := (pushingPool (fst w))(key := None)\<rparr>, chans))
         | None \<Rightarrow> (None, w))
      else (Some UnknownPoolType, w))"

section \<open>An instance of the imported functions\<close>

text \<open>
  Modelled from the spec: \<^verbatim>\<open>registry.SplitReposName\<close>, which is not among the sources. The
  spec's \<^verbatim>\<open>Parse\<close>: a component before the first \<^verbatim>\<open>/\<close> that contains \<^verbatim>\<open>.\<close>, \<^verbatim>\<open>:\<close> or is
  exactly \<^verbatim>\<open>localhost\<close> is the index name; otherwise the reference is unqualified.
\<close>

definition spec_SplitReposName :: "string list \<Rightarrow> string \<Rightarrow> bool \<Rightarrow> string \<times> string" where
  "spec_SplitReposName registries reposName fixMissingIndex =
     (let first = takeWhile (\<lambda>c. c \<noteq> CHR ''/'') reposName;
          rest = dropWhile (\<lambda>c. c \<noteq> CHR ''/'') reposName in
      if rest \<noteq> [] \<and> (CHR ''.'' \<in> set first \<or> CHR '':'' \<in> set first \<or> first = ''localhost'')
      then (first, tl rest)
      else (if fixMissingIndex then (case registries of [] \<Rightarrow> [] | r # rs \<Rightarrow> r) else [], reposName))"

text \<open>
  Modelled from the spec: \<^verbatim>\<open>registry.RepositoryNameHasIndex\<close>, which is not among the
  sources. A name has an index when the index name that \<^verbatim>\<open>Parse\<close> finds is not empty.
\<close>

definition spec_RepositoryNameHasIndex :: "string list \<Rightarrow> string \<Rightarrow> bool" where
  "spec_RepositoryNameHasIndex registries reposName =
     (fst (spec_SplitReposName registries reposName False) \<noteq> [])"

definition to_lower :: "char \<Rightarrow> char" where
  "to_lower c = (if c \<in> set upper then char_of (of_char c + (32 :: nat)) else c)"

text \<open>
  Modelled from the spec: \<^verbatim>\<open>registry.NormalizeLocalName\<close>, which is not among the sources.
  The spec's \<^verbatim>\<open>Canonicalize\<close> lowercases the index name and prepends the default registry
  (the first entry of the registry list) when the index name is empty. It also collapses
  a \<^verbatim>\<open>library/\<close> prefix "where applicable"; that part is left out, and no name used below
  has that prefix.
\<close>

definition spec_NormalizeLocalName :: "string list \<Rightarrow> string \<Rightarrow> string" where
  "spec_NormalizeLocalName registries name =
     (case spec_SplitReposName registries name True of
        (indexName, remoteName) \<Rightarrow> map to_lower indexName @ ''/'' @ remoteName)"

text \<open>
  Modelled from the spec: \<^verbatim>\<open>parsers.ParseRepositoryTag\<close>, which is not among the sources.
  The spec's \<^verbatim>\<open>Parse\<close> splits on \<^verbatim>\<open>@\<close> to isolate a digest and on the last \<^verbatim>\<open>:\<close> after the
  last \<^verbatim>\<open>/\<close> to isolate a tag.
\<close>

definition spec_ParseRepositoryTag :: "string \<Rightarrow> string \<times> string" where
  "spec_ParseRepositoryTag repos =
     (if CHR ''@'' \<in> set repos then
        (takeWhile (\<lambda>c. c \<noteq> CHR ''@'') repos, tl (dropWhile (\<lambda>c. c \<noteq> CHR ''@'') repos))
      else
        (let tag = rev (takeWhile (\<lambda>c. c \<noteq> CHR '':'') (rev repos)) in
         if CHR '':'' \<in> set repos \<and> CHR ''/'' \<notin> set tag
         then (take (length repos - length tag - 1) repos, tag)
         else (repos, [])))"

text \<open>
  Modelled from the spec: \<^verbatim>\<open>utils.ImageReference\<close>, which is not among the sources. The
  spec's \<^verbatim>\<open>ByID\<close> lists the names as \<^verbatim>\<open>repo:tag\<close>.
\<close>

definition spec_ImageReference :: "string \<Rightarrow> string \<Rightarrow> string" where
  "spec_ImageReference repo ref = repo @ '':'' @ ref"

text \<open>
  A graph that holds exactly the images with the given IDs; an ID is found by itself or
  by a prefix that only it has.
\<close>

definition graph_of :: "string list \<Rightarrow> string \<Rightarrow> error + Image option" where
  "graph_of ids name =
     (case filter (\<lambda>imgID. HasPrefix imgID name) ids of
        [imgID] \<Rightarrow> Inr (Some \<lparr>ID = imgID\<rparr>)
      | _ \<Rightarrow> Inl (GraphError name))"

definition docker_env :: "string list \<Rightarrow> string list \<Rightarrow> env" where
  "docker_env registries ids =
     \<lparr>registry_NormalizeLocalName = spec_NormalizeLocalName registries,
      registry_RepositoryNameHasIndex = spec_RepositoryNameHasIndex registries,
      registry_SplitReposName = spec_SplitReposName registries,
      registry_RegistryList = registries,
      parsers_ParseRepositoryTag = spec_ParseRepositoryTag,
      utils_ImageReference = spec_ImageReference,
      graph_Get = graph_of ids\<rparr>"

definition store_of :: "(string \<times> Repository) list \<Rightarrow> TagStore" where
  "store_of repos = \<lparr>Repositories = repos, pullingPool = Map.empty, pushingPool = Map.empty\<rparr>"

definition disk_of :: "(string \<times> Repository) list \<Rightarrow> fs" where
  "disk_of repos = \<lparr>contents = Json repos, write_fails = False, failed_write_leaves = Garbage\<rparr>"

section \<open>The candidate list in the words of its description\<close>

text \<open>
  A second description of the result of \<^verbatim>\<open>getRepositoryList\<close>, to compare with the one
  above. The candidates found by name: the exact match, the match after normalization
  and, for a name without index, the matches under the registries of the list after its
  first entry, in list order.
\<close>

definition named_candidates :: "env \<Rightarrow> (string \<times> Repository) list \<Rightarrow> string \<Rightarrow> (string \<times> Repository) list" where
  "named_candidates e repos repoName =
     candidate repos repoName
     @ candidate repos (registry_NormalizeLocalName e repoName)
     @ (if registry_RepositoryNameHasIndex e repoName then []
        else concat (map (\<lambda>reg. candidate repos (registry_NormalizeLocalName e (reg @ ''/'' @ repoName)))
               (tl (registry_RegistryList e))))"

text \<open>
  The candidates found by iterating over the map, for a name without index: the entries
  whose index is not a default registry and whose remote name is the given name.
\<close>

definition iterated_candidates :: "env \<Rightarrow> (string \<times> Repository) list \<Rightarrow> string \<Rightarrow> (string \<times> Repository) list" where
  "iterated_candidates e repos repoName =
     (if registry_RepositoryNameHasIndex e repoName then []
      else filter (non_default e repoName) repos)"

section \<open>The pools in the words of their description\<close>

text \<open>The pool of a kind of transfer, and the other kind.\<close>

definition pool :: "string \<Rightarrow> TagStore \<Rightarrow> (string \<rightharpoonup> chan)" where
  "pool kind store = (if kind = ''pull'' then pullingPool store else pushingPool store)"

definition other_kind :: "string \<Rightarrow> string" where
  "other_kind kind = (if kind = ''pull'' then ''push'' else ''pull'')"

text \<open>
  The states of the pools that a store can be in: \<^verbatim>\<open>NewTagStore\<close> makes both pools empty,
  \<^verbatim>\<open>poolAdd\<close> and \<^verbatim>\<open>poolRemove\<close> are the only functions that change them, and the other
  operations of the store change \<^verbatim>\<open>Repositories\<close> only.
\<close>

inductive pool_reachable :: "TagStore \<times> bool list \<Rightarrow> bool" where
  created: "pullingPool store = Map.empty \<Longrightarrow> pushingPool store = Map.empty \<Longrightarrow> pool_reachable (store, chans)"
| added: "pool_reachable w \<Longrightarrow> pool_reachable (snd (poolAdd w kind key))"
| removed: "pool_reachable w \<Longrightarrow> pool_reachable (snd (poolRemove w kind key))"
| stored: "pool_reachable (store, chans) \<Longrightarrow> pool_reachable (store\<lparr>Repositories := repos\<rparr>, chans)"

text \<open>
  What holds of the pools in every such state: no key is in both pools, every channel of
  a pool has been made and is not closed, and no channel is held under two keys.
\<close>

definition pools_ok :: "TagStore \<times> bool list \<Rightarrow> bool" where
  "pools_ok w =
     (dom (pullingPool (fst w)) \<inter> dom (pushingPool (fst w)) = {}
      \<and> (\<forall>key c. pullingPool (fst w) key = Some c \<or> pushingPool (fst w) key = Some c
            \<longrightarrow> c < length (snd w) \<and> \<not> snd w ! c)
      \<and> (\<forall>key key' c. (pullingPool (fst w) key = Some c \<or> pushingPool (fst w) key = Some c)
            \<and> (pullingPool (fst w) key' = Some c \<or> pushingPool (fst w) key' = Some c)
            \<longrightarrow> key = key'))"

section \<open>Example states\<close>

text \<open>
  One default registry, a graph with two images, and a repository \<^verbatim>\<open>r.io/foo\<close> that carries
  an explicit index, so that its name is its own normal form.
\<close>

definition example_env :: env where
  "example_env = docker_env [''docker.io''] [''1111'', ''2222'']"

definition foo_v1 :: "(string \<times> Repository) list" where
  "foo_v1 = [(''r.io/foo'', [(''v1'', ''1111'')])]"

definition foo_digest :: "(string \<times> Repository) list" where
  "foo_digest = [(''r.io/foo'', [(''sha256:ab'', ''1111'')])]"

text \<open>
  A file that holds the given repositories and cannot be opened for writing, and one that
  is truncated by a write that then fails.
\<close>

definition readonly_disk_of :: "(string \<times> Repository) list \<Rightarrow> fs" where
  "readonly_disk_of repos = \<lparr>contents = Json repos, write_fails = True, failed_write_leaves = Json repos\<rparr>"

definition full_disk_of :: "(string \<times> Repository) list \<Rightarrow> fs" where
  "full_disk_of repos = \<lparr>contents = Json repos, write_fails = True, failed_write_leaves = Garbage\<rparr>"

text \<open>
  The same two repositories \<^verbatim>\<open>a.io/foo\<close> and \<^verbatim>\<open>b.io/foo\<close> in a map that is iterated in
  the one order and in a map that is iterated in the other.
\<close>

definition ab_foo :: "(string \<times> Repository) list" where
  "ab_foo = [(''a.io/foo'', [(''v1'', ''1111'')]), (''b.io/foo'', [(''v1'', ''2222'')])]"

definition ba_foo :: "(string \<times> Repository) list" where
  "ba_foo = [(''b.io/foo'', [(''v1'', ''2222'')]), (''a.io/foo'', [(''v1'', ''1111'')])]"

text \<open>
  Names with a colon: the repository \<^verbatim>\<open>localhost:5000/img\<close> tagged \<^verbatim>\<open>v1\<close>; and a repository
  \<^verbatim>\<open>localhost:5000\<close> tagged \<^verbatim>\<open>v1\<close> next to a repository \<^verbatim>\<open>localhost\<close> tagged \<^verbatim>\<open>5000\<close>.
\<close>

definition port_img :: "(string \<times> Repository) list" where
  "port_img = [(''localhost:5000/img'', [(''v1'', ''1111'')])]"

definition port_and_host :: "(string \<times> Repository) list" where
  "port_and_host = [(''localhost:5000'', [(''v1'', ''1111'')]), (''localhost'', [(''5000'', ''2222'')])]"

text \<open>A store in which a pull of the key \<^verbatim>\<open>k\<close> is in progress, on the first channel made.\<close>

definition pulling_k :: TagStore where
  "pulling_k = \<lparr>Repositories = [], pullingPool = [''k'' \<mapsto> 0], pushingPool = Map.empty\<rparr>"


section \<open>Conflicts on rebinding\<close>

lemma SetLoad_reloaded_conflict:
  assumes "map_of (Repositories store) (local_name e repoName keepUnqualified) = Some r"
    and "map_of r tag = Some old"
  shows "SetLoad_reloaded e store f repoName tag img False keepUnqualified out
           = ((Some (ConflictTag tag old), store, f), out)"
  using assms by (simp add: SetLoad_reloaded_def)

lemma Tag_conflict:
  assumes "LookupImage e (store, f) imageName = Inr img"
    and "validateRepoName repoName = None"
    and "ValidateTagName (if tag = [] then DEFAULTTAG else tag) = None"
    and "reload store f = Inr store'"
    and "map_of (Repositories store') (local_name e repoName keepUnqualified) = Some r"
    and "map_of r (if tag = [] then DEFAULTTAG else tag) = Some old"
  shows "Tag e (store, f) repoName tag imageName False keepUnqualified
           = (Some (ConflictTag (if tag = [] then DEFAULTTAG else tag) old), store', f)"
  using assms by (simp add: Tag_def SetLoad_def SetLoad_reloaded_conflict)

lemma example_lookup_2222:
  "LookupImage example_env (store_of foo_v1, disk_of foo_v1) ''2222'' = Inr (Some \<lparr>ID = ''2222''\<rparr>)"
  by code_simp

lemma example_lookup_1111:
  "LookupImage example_env (store_of foo_v1, disk_of foo_v1) ''1111'' = Inr (Some \<lparr>ID = ''1111''\<rparr>)"
  by code_simp

lemma example_reload_foo_v1: "reload (store_of foo_v1) (disk_of foo_v1) = Inr (store_of foo_v1)"
  by (simp add: reload_def store_of_def disk_of_def foo_v1_def)

lemma example_repo_foo_v1:
  "map_of (Repositories (store_of foo_v1)) (local_name example_env ''r.io/foo'' False) = Some [(''v1'', ''1111'')]"
  by code_simp

text \<open>
  C1. Let the store, as reloaded at the start of the call, bind \<open>(R, T)\<close> to the image ID
  \<open>A\<close> (under the name \<open>R\<close> is stored as, and with the empty tag standing for \<^verbatim>\<open>latest\<close>),
  and let the image name given to \<^verbatim>\<open>Tag\<close> resolve to an image with another ID \<open>B\<close>. Then
  \<^verbatim>\<open>Tag(R, T, B)\<close> with \<^verbatim>\<open>force = false\<close> returns the Conflict error that names \<open>T\<close> and
  \<open>A\<close>, the store is the reloaded one, the file is as it was, and \<open>(R, T)\<close> still resolves
  to \<open>A\<close>.
\<close>

theorem Tag_rebind_without_force_conflicts:
  assumes "LookupImage e (store, f) imageName = Inr (Some img)" and "ID img = B" and "A \<noteq> B"
    and "validateRepoName R = None"
    and "ValidateTagName (if T = [] then DEFAULTTAG else T) = None"
    and "reload store f = Inr store'"
    and "map_of (Repositories store') (local_name e R keepUnqualified) = Some r"
    and "map_of r (if T = [] then DEFAULTTAG else T) = Some A"
  shows "Tag e (store, f) R T imageName False keepUnqualified
           = (Some (ConflictTag (if T = [] then DEFAULTTAG else T) A), store', f)
         \<and> Option.bind
             (map_of (Repositories (fst (snd (Tag e (store, f) R T imageName False keepUnqualified))))
               (local_name e R keepUnqualified))
             (\<lambda>repo. map_of repo (if T = [] then DEFAULTTAG else T)) = Some A"
  using assms by (simp add: Tag_conflict)

theorem Tag_rebind_without_force_conflicts_witness:
  "Tag example_env (store_of foo_v1, disk_of foo_v1) ''r.io/foo'' ''v1'' ''2222'' False False
     = (Some (ConflictTag ''v1'' ''1111''), store_of foo_v1, disk_of foo_v1)"
proof -
  have neq: "''1111'' \<noteq> ''2222''" by simp
  have repo_ok: "validateRepoName ''r.io/foo'' = None" by code_simp
  have tag_ok: "ValidateTagName (if ''v1'' = [] then DEFAULTTAG else ''v1'') = None" by code_simp
  have bound: "map_of [(''v1'', ''1111'')] (if ''v1'' = [] then DEFAULTTAG else ''v1'') = Some ''1111''"
    by simp
  have img: "ID \<lparr>ID = ''2222''\<rparr> = ''2222''" by simp
  show ?thesis
    using Tag_rebind_without_force_conflicts
      [OF example_lookup_2222 img neq repo_ok tag_ok example_reload_foo_v1 example_repo_foo_v1 bound]
    by simp
qed

text \<open>
  C10. Let the store, as reloaded at the start of the call, bind \<open>(R, T)\<close> to the image ID
  \<open>A\<close>, and let the image name \<open>X\<close> given to \<^verbatim>\<open>Tag\<close> resolve to the image with that same ID
  \<open>A\<close>. Then \<^verbatim>\<open>Tag(R, T, X)\<close> with \<^verbatim>\<open>force = false\<close> still returns the Conflict error: tagging
  the identical image again needs \<^verbatim>\<open>force\<close>, although no binding would change.
\<close>

theorem Tag_same_image_without_force_conflicts:
  assumes "LookupImage e (store, f) X = Inr (Some img)" and "ID img = A"
    and "validateRepoName R = None"
    and "ValidateTagName (if T = [] then DEFAULTTAG else T) = None"
    and "reload store f = Inr store'"
    and "map_of (Repositories store') (local_name e R keepUnqualified) = Some r"
    and "map_of r (if T = [] then DEFAULTTAG else T) = Some A"
  shows "Tag e (store, f) R T X False keepUnqualified
           = (Some (ConflictTag (if T = [] then DEFAULTTAG else T) A), store', f)"
  using assms by (simp add: Tag_conflict)

theorem Tag_same_image_without_force_conflicts_witness:
  "Tag example_env (store_of foo_v1, disk_of foo_v1) ''r.io/foo'' ''v1'' ''1111'' False False
     = (Some (ConflictTag ''v1'' ''1111''), store_of foo_v1, disk_of foo_v1)"
proof -
  have repo_ok: "validateRepoName ''r.io/foo'' = None" by code_simp
  have tag_ok: "ValidateTagName (if ''v1'' = [] then DEFAULTTAG else ''v1'') = None" by code_simp
  have bound: "map_of [(''v1'', ''1111'')] (if ''v1'' = [] then DEFAULTTAG else ''v1'') = Some ''1111''"
    by simp
  have img: "ID \<lparr>ID = ''1111''\<rparr> = ''1111''" by simp
  show ?thesis
    using Tag_same_image_without_force_conflicts
      [OF example_lookup_1111 img repo_ok tag_ok example_reload_foo_v1 example_repo_foo_v1 bound]
    by simp
qed

lemma SetDigest_reloaded_bound:
  assumes "map_of (Repositories store) (local_name e repoName keepUnqualified) = Some repoRefs"
    and "map_of repoRefs digest = Some oldID"
  shows "SetDigest_reloaded e store f repoName digest (Some img) keepUnqualified =
           (if oldID \<noteq> ID img then (Some (ConflictDigest digest oldID), store, f)
            else bind_and_save store f (local_name e repoName keepUnqualified) digest (Some img))"
  using assms by (simp add: SetDigest_reloaded_def)

lemma SetDigest_bound:
  assumes "LookupImage e (store, f) imageName = Inr (Some img)"
    and "validateRepoName repoName = None"
    and "validateDigest digest = None"
    and "reload store f = Inr store'"
    and "map_of (Repositories store') (local_name e repoName keepUnqualified) = Some repoRefs"
    and "map_of repoRefs digest = Some oldID"
  shows "SetDigest e (store, f) repoName digest imageName keepUnqualified =
           (if oldID \<noteq> ID img then (Some (ConflictDigest digest oldID), store', f)
            else bind_and_save store' f (local_name e repoName keepUnqualified) digest (Some img))"
  using assms by (simp add: SetDigest_def SetDigest_reloaded_bound)

lemma set_ref_binds:
  "Option.bind (map_of (Repositories (set_ref store name ref imgID)) name) (\<lambda>repo. map_of repo ref)
     = Some imgID"
  by (simp add: set_ref_def update_conv')

lemma bind_and_save_writable:
  assumes "\<not> write_fails f"
  shows "bind_and_save store f name ref (Some img) =
           (None, set_ref store name ref (ID img),
            f\<lparr>contents := Json (Repositories (set_ref store name ref (ID img)))\<rparr>)"
  using assms by (simp add: bind_and_save_def save_def Let_def)

lemma example_lookup_digest_2222:
  "LookupImage example_env (store_of foo_digest, disk_of foo_digest) ''2222'' = Inr (Some \<lparr>ID = ''2222''\<rparr>)"
  by code_simp

lemma example_lookup_digest_1111:
  "LookupImage example_env (store_of foo_digest, disk_of foo_digest) ''1111'' = Inr (Some \<lparr>ID = ''1111''\<rparr>)"
  by code_simp

lemma example_reload_foo_digest:
  "reload (store_of foo_digest) (disk_of foo_digest) = Inr (store_of foo_digest)"
  by (simp add: reload_def store_of_def disk_of_def foo_digest_def)

lemma example_repo_foo_digest:
  "map_of (Repositories (store_of foo_digest)) (local_name example_env ''r.io/foo'' False)
     = Some [(''sha256:ab'', ''1111'')]"
  by code_simp

text \<open>
  C2. Let the store, as reloaded at the start of the call, bind \<open>(R, D)\<close> to the image ID
  \<open>A\<close>, and let the image name given to \<^verbatim>\<open>SetDigest\<close> resolve to an image. If the ID of
  that image is not \<open>A\<close>, \<^verbatim>\<open>SetDigest\<close> returns the Conflict error that names \<open>D\<close> and \<open>A\<close>,
  the store is the reloaded one, the file is as it was, and \<open>(R, D)\<close> still resolves to \<open>A\<close>;
  \<^verbatim>\<open>SetDigest\<close> has no force option, so nothing overrides this. If the ID of that image is
  \<open>A\<close> and the file can be written, \<^verbatim>\<open>SetDigest\<close> succeeds and \<open>(R, D)\<close> resolves to \<open>A\<close>.
\<close>

theorem SetDigest_rebind_conflicts:
  assumes "LookupImage e (store, f) imageName = Inr (Some img)"
    and "validateRepoName R = None"
    and "validateDigest D = None"
    and "reload store f = Inr store'"
    and "map_of (Repositories store') (local_name e R keepUnqualified) = Some r"
    and "map_of r D = Some A"
  shows "(ID img \<noteq> A \<longrightarrow>
            SetDigest e (store, f) R D imageName keepUnqualified = (Some (ConflictDigest D A), store', f)
            \<and> Option.bind (map_of (Repositories store') (local_name e R keepUnqualified))
                 (\<lambda>repo. map_of repo D) = Some A)
         \<and> (ID img = A \<and> \<not> write_fails f \<longrightarrow>
            fst (SetDigest e (store, f) R D imageName keepUnqualified) = None
            \<and> Option.bind
                 (map_of (Repositories (fst (snd (SetDigest e (store, f) R D imageName keepUnqualified))))
                    (local_name e R keepUnqualified))
                 (\<lambda>repo. map_of repo D) = Some A)"
proof (intro conjI impI)
  assume "ID img \<noteq> A"
  with assms show "SetDigest e (store, f) R D imageName keepUnqualified = (Some (ConflictDigest D A), store', f)"
    by (simp add: SetDigest_bound)
next
  from assms(5,6)
  show "Option.bind (map_of (Repositories store') (local_name e R keepUnqualified))
          (\<lambda>repo. map_of repo D) = Some A"
    by simp
next
  assume same: "ID img = A \<and> \<not> write_fails f"
  with assms show "fst (SetDigest e (store, f) R D imageName keepUnqualified) = None"
    by (simp add: SetDigest_bound bind_and_save_writable)
next
  assume same: "ID img = A \<and> \<not> write_fails f"
  with assms
  have "fst (snd (SetDigest e (store, f) R D imageName keepUnqualified))
          = set_ref store' (local_name e R keepUnqualified) D A"
    by (simp add: SetDigest_bound bind_and_save_writable)
  then show "Option.bind
      (map_of (Repositories (fst (snd (SetDigest e (store, f) R D imageName keepUnqualified))))
         (local_name e R keepUnqualified))
      (\<lambda>repo. map_of repo D) = Some A"
    by (simp only: set_ref_binds)
qed

theorem SetDigest_rebind_conflicts_witness:
  "SetDigest example_env (store_of foo_digest, disk_of foo_digest) ''r.io/foo'' ''sha256:ab'' ''2222'' False
     = (Some (ConflictDigest ''sha256:ab'' ''1111''), store_of foo_digest, disk_of foo_digest)
   \<and> fst (SetDigest example_env (store_of foo_digest, disk_of foo_digest) ''r.io/foo'' ''sha256:ab'' ''1111'' False)
     = None"
proof -
  have repo_ok: "validateRepoName ''r.io/foo'' = None" by code_simp
  have digest_ok: "validateDigest ''sha256:ab'' = None" by code_simp
  have bound: "map_of [(''sha256:ab'', ''1111'')] ''sha256:ab'' = Some ''1111''" by simp
  have writable: "\<not> write_fails (disk_of foo_digest)" by (simp add: disk_of_def)
  show ?thesis
    using SetDigest_rebind_conflicts
        [OF example_lookup_digest_2222 repo_ok digest_ok example_reload_foo_digest example_repo_foo_digest bound]
      SetDigest_rebind_conflicts
        [OF example_lookup_digest_1111 repo_ok digest_ok example_reload_foo_digest example_repo_foo_digest bound]
      writable
    by simp
qed

section \<open>A failing save\<close>

lemma LookupImage_memory: "LookupImage e (store, f) name = LookupImage e (store, f') name"
  by (simp add: LookupImage_def GetImage_def)

lemma reload_write_fails: "reload store (f\<lparr>write_fails := b\<rparr>) = reload store f"
  by (simp add: reload_def)

lemma bind_and_save_failing:
  "bind_and_save store (f\<lparr>write_fails := True\<rparr>) name ref (Some img)
     = (Some WriteError, set_ref store name ref (ID img),
        f\<lparr>write_fails := True, contents := failed_write_leaves f\<rparr>)"
  by (simp add: bind_and_save_def save_def Let_def)

lemma bind_and_save_succeeding:
  "bind_and_save store (f\<lparr>write_fails := False\<rparr>) name ref (Some img)
     = (None, set_ref store name ref (ID img),
        f\<lparr>write_fails := False, contents := Json (Repositories (set_ref store name ref (ID img)))\<rparr>)"
  by (simp add: bind_and_save_def save_def Let_def)

lemma bind_and_save_nil: "bind_and_save store f name ref None = (Some NilPointer, store, f)"
  by (simp add: bind_and_save_def)

lemma SetLoad_reloaded_failing_save:
  assumes "fst (fst (SetLoad_reloaded e store (f\<lparr>write_fails := False\<rparr>) repoName tag img force keepUnqualified out)) = None"
  shows "\<exists>i. img = Some i
           \<and> fst (fst (SetLoad_reloaded e store (f\<lparr>write_fails := True\<rparr>) repoName tag img force keepUnqualified out))
             = Some WriteError
           \<and> fst (snd (fst (SetLoad_reloaded e store (f\<lparr>write_fails := True\<rparr>) repoName tag img force keepUnqualified out)))
             = fst (snd (fst (SetLoad_reloaded e store (f\<lparr>write_fails := False\<rparr>) repoName tag img force keepUnqualified out)))
           \<and> Option.bind
               (map_of (Repositories (fst (snd (fst (SetLoad_reloaded e store (f\<lparr>write_fails := True\<rparr>) repoName tag img force keepUnqualified out)))))
                  (local_name e repoName keepUnqualified))
               (\<lambda>repo. map_of repo tag) = Some (ID i)"
proof (cases img)
  case None
  with assms show ?thesis
    by (auto simp: SetLoad_reloaded_def bind_and_save_nil Let_def split: option.splits if_splits)
next
  case (Some i)
  with assms show ?thesis
    by (auto simp: SetLoad_reloaded_def bind_and_save_failing bind_and_save_succeeding set_ref_binds Let_def
          split: option.splits if_splits)
qed

lemma SetDigest_reloaded_failing_save:
  assumes "fst (SetDigest_reloaded e store (f\<lparr>write_fails := False\<rparr>) repoName digest img keepUnqualified) = None"
  shows "\<exists>i. img = Some i
           \<and> fst (SetDigest_reloaded e store (f\<lparr>write_fails := True\<rparr>) repoName digest img keepUnqualified)
             = Some WriteError
           \<and> fst (snd (SetDigest_reloaded e store (f\<lparr>write_fails := True\<rparr>) repoName digest img keepUnqualified))
             = fst (snd (SetDigest_reloaded e store (f\<lparr>write_fails := False\<rparr>) repoName digest img keepUnqualified))
           \<and> Option.bind
               (map_of (Repositories (fst (snd (SetDigest_reloaded e store (f\<lparr>write_fails := True\<rparr>) repoName digest img keepUnqualified))))
                  (local_name e repoName keepUnqualified))
               (\<lambda>repo. map_of repo digest) = Some (ID i)"
proof (cases img)
  case None
  with assms show ?thesis
    by (auto simp: SetDigest_reloaded_def bind_and_save_nil Let_def split: option.splits if_splits)
next
  case (Some i)
  with assms show ?thesis
    by (auto simp: SetDigest_reloaded_def bind_and_save_failing bind_and_save_succeeding set_ref_binds Let_def
          split: option.splits if_splits)
qed

lemma delete_from_unbinds:
  "Option.bind (map_of (Repositories (delete_from store name repoRefs ref)) name)
     (\<lambda>repo. map_of repo ref) = None"
  by (simp add: delete_from_def Let_def update_conv' delete_conv')

lemma Tag_failing_save:
  assumes "fst (Tag e (store, f\<lparr>write_fails := False\<rparr>) R T imageName force keepUnqualified) = None"
  shows "\<exists>img. LookupImage e (store, f) imageName = Inr (Some img)
           \<and> fst (Tag e (store, f\<lparr>write_fails := True\<rparr>) R T imageName force keepUnqualified) = Some WriteError
           \<and> fst (snd (Tag e (store, f\<lparr>write_fails := True\<rparr>) R T imageName force keepUnqualified))
             = fst (snd (Tag e (store, f\<lparr>write_fails := False\<rparr>) R T imageName force keepUnqualified))
           \<and> Option.bind
               (map_of (Repositories (fst (snd (Tag e (store, f\<lparr>write_fails := True\<rparr>) R T imageName force keepUnqualified))))
                  (local_name e R keepUnqualified))
               (\<lambda>repo. map_of repo (if T = [] then DEFAULTTAG else T)) = Some (ID img)"
proof -
  let ?T = "if T = [] then DEFAULTTAG else T"
  have look: "LookupImage e (store, f\<lparr>write_fails := b\<rparr>) imageName = LookupImage e (store, f) imageName" for b
    by (rule LookupImage_memory)
  from assms obtain img store' where
    img: "LookupImage e (store, f) imageName = Inr img"
    and valid: "validateRepoName R = None" "ValidateTagName ?T = None"
    and store': "reload store f = Inr store'"
    by (auto simp: Tag_def SetLoad_def look reload_write_fails Let_def split: sum.splits option.splits)
  have unfold: "Tag e (store, f\<lparr>write_fails := b\<rparr>) R T imageName force keepUnqualified
      = fst (SetLoad_reloaded e store' (f\<lparr>write_fails := b\<rparr>) R ?T img force keepUnqualified None)" for b
    using img valid store' by (simp add: Tag_def SetLoad_def look reload_write_fails)
  from assms have "fst (fst (SetLoad_reloaded e store' (f\<lparr>write_fails := False\<rparr>) R ?T img force keepUnqualified None)) = None"
    by (simp add: unfold)
  from SetLoad_reloaded_failing_save [OF this] img show ?thesis
    by (auto simp: unfold)
qed

lemma SetDigest_failing_save:
  assumes "fst (SetDigest e (store, f\<lparr>write_fails := False\<rparr>) R D imageName keepUnqualified) = None"
  shows "\<exists>img. LookupImage e (store, f) imageName = Inr (Some img)
           \<and> fst (SetDigest e (store, f\<lparr>write_fails := True\<rparr>) R D imageName keepUnqualified) = Some WriteError
           \<and> fst (snd (SetDigest e (store, f\<lparr>write_fails := True\<rparr>) R D imageName keepUnqualified))
             = fst (snd (SetDigest e (store, f\<lparr>write_fails := False\<rparr>) R D imageName keepUnqualified))
           \<and> Option.bind
               (map_of (Repositories (fst (snd (SetDigest e (store, f\<lparr>write_fails := True\<rparr>) R D imageName keepUnqualified))))
                  (local_name e R keepUnqualified))
               (\<lambda>repo. map_of repo D) = Some (ID img)"
proof -
  have look: "LookupImage e (store, f\<lparr>write_fails := b\<rparr>) imageName = LookupImage e (store, f) imageName" for b
    by (rule LookupImage_memory)
  from assms obtain img store' where
    img: "LookupImage e (store, f) imageName = Inr img"
    and valid: "validateRepoName R = None" "validateDigest D = None"
    and store': "reload store f = Inr store'"
    by (auto simp: SetDigest_def look reload_write_fails split: sum.splits option.splits)
  have unfold: "SetDigest e (store, f\<lparr>write_fails := b\<rparr>) R D imageName keepUnqualified
      = SetDigest_reloaded e store' (f\<lparr>write_fails := b\<rparr>) R D img keepUnqualified" for b
    using img valid store' by (simp add: SetDigest_def look reload_write_fails)
  from assms have "fst (SetDigest_reloaded e store' (f\<lparr>write_fails := False\<rparr>) R D img keepUnqualified) = None"
    by (simp add: unfold)
  from SetDigest_reloaded_failing_save [OF this] img show ?thesis
    by (auto simp: unfold)
qed

lemma Delete_failing_save:
  assumes "snd (fst (Delete e (store, f\<lparr>write_fails := False\<rparr>) R ref)) = None"
  shows "\<exists>store' name repoRefs. reload store f = Inr store'
           \<and> delete_walk (getRepositoryList e store' R) ref = Some (name, repoRefs)
           \<and> fst (Delete e (store, f\<lparr>write_fails := True\<rparr>) R ref) = (True, Some WriteError)
           \<and> fst (snd (Delete e (store, f\<lparr>write_fails := True\<rparr>) R ref))
             = fst (snd (Delete e (store, f\<lparr>write_fails := False\<rparr>) R ref))
           \<and> Option.bind
               (map_of (Repositories (fst (snd (Delete e (store, f\<lparr>write_fails := True\<rparr>) R ref)))) name)
               (\<lambda>repo. map_of repo ref) = None"
  using assms
  by (auto simp: Delete_def reload_write_fails save_def Let_def delete_from_unbinds
        split: sum.splits option.splits if_splits)

lemma example_Tag_writable:
  "fst (Tag example_env (store_of [], (full_disk_of [])\<lparr>write_fails := False\<rparr>) ''r.io/foo'' ''v1'' ''1111'' False False) = None"
  by code_simp

lemma example_SetDigest_writable:
  "fst (SetDigest example_env (store_of [], (full_disk_of [])\<lparr>write_fails := False\<rparr>) ''r.io/foo'' ''sha256:ab'' ''1111'' False) = None"
  by code_simp

lemma example_Delete_writable:
  "snd (fst (Delete example_env (store_of foo_v1, (full_disk_of foo_v1)\<lparr>write_fails := False\<rparr>) ''r.io/foo'' ''v1'')) = None"
  by code_simp

lemma example_Tag_writable_state:
  "Repositories (fst (snd (Tag example_env (store_of [], (full_disk_of [])\<lparr>write_fails := False\<rparr>) ''r.io/foo'' ''v1'' ''1111'' False False)))
     = foo_v1"
  by code_simp

lemma example_SetDigest_writable_state:
  "Repositories (fst (snd (SetDigest example_env (store_of [], (full_disk_of [])\<lparr>write_fails := False\<rparr>) ''r.io/foo'' ''sha256:ab'' ''1111'' False)))
     = foo_digest"
  by code_simp

lemma example_Delete_writable_state:
  "Repositories (fst (snd (Delete example_env (store_of foo_v1, (full_disk_of foo_v1)\<lparr>write_fails := False\<rparr>) ''r.io/foo'' ''v1''))) = []"
  by code_simp

lemma full_disk_of_fails: "(full_disk_of repos)\<lparr>write_fails := True\<rparr> = full_disk_of repos"
  by (simp add: full_disk_of_def)

text \<open>
  C5, as the code has it. When \<^verbatim>\<open>ioutil.WriteFile\<close> fails in a call of \<^verbatim>\<open>Tag\<close>, \<^verbatim>\<open>SetDigest\<close>
  or \<^verbatim>\<open>Delete\<close> that would succeed on a writable file, the call returns the write error
  (\<^verbatim>\<open>Delete\<close> together with \<^verbatim>\<open>deleted = true\<close>) and the store in memory is not rolled
  back: it is the store that the successful call leaves, so it binds the new reference to
  the image, or no longer holds the deleted reference.
\<close>

theorem failing_save_keeps_mutation:
  "(fst (Tag e (store, f\<lparr>write_fails := False\<rparr>) R T imageName force keepUnqualified) = None \<longrightarrow>
      (\<exists>img. LookupImage e (store, f) imageName = Inr (Some img)
         \<and> fst (Tag e (store, f\<lparr>write_fails := True\<rparr>) R T imageName force keepUnqualified) = Some WriteError
         \<and> fst (snd (Tag e (store, f\<lparr>write_fails := True\<rparr>) R T imageName force keepUnqualified))
           = fst (snd (Tag e (store, f\<lparr>write_fails := False\<rparr>) R T imageName force keepUnqualified))
         \<and> Option.bind
             (map_of (Repositories (fst (snd (Tag e (store, f\<lparr>write_fails := True\<rparr>) R T imageName force keepUnqualified))))
                (local_name e R keepUnqualified))
             (\<lambda>repo. map_of repo (if T = [] then DEFAULTTAG else T)) = Some (ID img)))
   \<and> (fst (SetDigest e (store, f\<lparr>write_fails := False\<rparr>) R D imageName keepUnqualified) = None \<longrightarrow>
      (\<exists>img. LookupImage e (store, f) imageName = Inr (Some img)
         \<and> fst (SetDigest e (store, f\<lparr>write_fails := True\<rparr>) R D imageName keepUnqualified) = Some WriteError
         \<and> fst (snd (SetDigest e (store, f\<lparr>write_fails := True\<rparr>) R D imageName keepUnqualified))
           = fst (snd (SetDigest e (store, f\<lparr>write_fails := False\<rparr>) R D imageName keepUnqualified))
         \<and> Option.bind
             (map_of (Repositories (fst (snd (SetDigest e (store, f\<lparr>write_fails := True\<rparr>) R D imageName keepUnqualified))))
                (local_name e R keepUnqualified))
             (\<lambda>repo. map_of repo D) = Some (ID img)))
   \<and> (snd (fst (Delete e (store, f\<lparr>write_fails := False\<rparr>) R ref)) = None \<longrightarrow>
      (\<exists>store' name repoRefs. reload store f = Inr store'
         \<and> delete_walk (getRepositoryList e store' R) ref = Some (name, repoRefs)
         \<and> fst (Delete e (store, f\<lparr>write_fails := True\<rparr>) R ref) = (True, Some WriteError)
         \<and> fst (snd (Delete e (store, f\<lparr>write_fails := True\<rparr>) R ref))
           = fst (snd (Delete e (store, f\<lparr>write_fails := False\<rparr>) R ref))
         \<and> Option.bind
             (map_of (Repositories (fst (snd (Delete e (store, f\<lparr>write_fails := True\<rparr>) R ref)))) name)
             (\<lambda>repo. map_of repo ref) = None))"
  by (intro conjI impI Tag_failing_save SetDigest_failing_save Delete_failing_save)

theorem failing_save_keeps_mutation_witness:
  "fst (Tag example_env (store_of [], full_disk_of []) ''r.io/foo'' ''v1'' ''1111'' False False) = Some WriteError
   \<and> Repositories (fst (snd (Tag example_env (store_of [], full_disk_of []) ''r.io/foo'' ''v1'' ''1111'' False False)))
     = foo_v1
   \<and> fst (SetDigest example_env (store_of [], full_disk_of []) ''r.io/foo'' ''sha256:ab'' ''1111'' False)
     = Some WriteError
   \<and> Repositories (fst (snd (SetDigest example_env (store_of [], full_disk_of []) ''r.io/foo'' ''sha256:ab'' ''1111'' False)))
     = foo_digest
   \<and> fst (Delete example_env (store_of foo_v1, full_disk_of foo_v1) ''r.io/foo'' ''v1'') = (True, Some WriteError)
   \<and> Repositories (fst (snd (Delete example_env (store_of foo_v1, full_disk_of foo_v1) ''r.io/foo'' ''v1''))) = []"
proof -
  note empty = failing_save_keeps_mutation
    [of example_env "store_of []" "full_disk_of []" "''r.io/foo''" "''v1''" "''1111''" False False "''sha256:ab''" "''v1''",
     unfolded full_disk_of_fails]
  note held = failing_save_keeps_mutation
    [of example_env "store_of foo_v1" "full_disk_of foo_v1" "''r.io/foo''" "''v1''" "''1111''" False False "''sha256:ab''" "''v1''",
     unfolded full_disk_of_fails]
  from empty [THEN conjunct1, rule_format, OF example_Tag_writable]
  have tag: "fst (Tag example_env (store_of [], full_disk_of []) ''r.io/foo'' ''v1'' ''1111'' False False) = Some WriteError"
    "fst (snd (Tag example_env (store_of [], full_disk_of []) ''r.io/foo'' ''v1'' ''1111'' False False))
      = fst (snd (Tag example_env (store_of [], (full_disk_of [])\<lparr>write_fails := False\<rparr>) ''r.io/foo'' ''v1'' ''1111'' False False))"
    by auto
  from empty [THEN conjunct2, THEN conjunct1, rule_format, OF example_SetDigest_writable]
  have digest: "fst (SetDigest example_env (store_of [], full_disk_of []) ''r.io/foo'' ''sha256:ab'' ''1111'' False) = Some WriteError"
    "fst (snd (SetDigest example_env (store_of [], full_disk_of []) ''r.io/foo'' ''sha256:ab'' ''1111'' False))
      = fst (snd (SetDigest example_env (store_of [], (full_disk_of [])\<lparr>write_fails := False\<rparr>) ''r.io/foo'' ''sha256:ab'' ''1111'' False))"
    by auto
  from held [THEN conjunct2, THEN conjunct2, rule_format, OF example_Delete_writable]
  have delete: "fst (Delete example_env (store_of foo_v1, full_disk_of foo_v1) ''r.io/foo'' ''v1'') = (True, Some WriteError)"
    "fst (snd (Delete example_env (store_of foo_v1, full_disk_of foo_v1) ''r.io/foo'' ''v1''))
      = fst (snd (Delete example_env (store_of foo_v1, (full_disk_of foo_v1)\<lparr>write_fails := False\<rparr>) ''r.io/foo'' ''v1''))"
    by auto
  show ?thesis
    by (simp add: tag digest delete example_Tag_writable_state example_SetDigest_writable_state
          example_Delete_writable_state)
qed

text \<open>
  C5 fails as stated: with a file that cannot be written, \<^verbatim>\<open>Tag\<close> on the empty store returns
  the write error, the state reloaded at the start of the operation is the empty store,
  and the store in memory holds the new binding.
\<close>

theorem failing_save_rolls_back_counterexample:
  "fst (Tag example_env (store_of [], readonly_disk_of []) ''r.io/foo'' ''v1'' ''1111'' False False)
     = Some WriteError
   \<and> reload (store_of []) (readonly_disk_of []) = Inr (store_of [])
   \<and> Repositories (store_of []) = []
   \<and> Repositories (fst (snd (Tag example_env (store_of [], readonly_disk_of []) ''r.io/foo'' ''v1'' ''1111'' False False)))
     = [(''r.io/foo'', [(''v1'', ''1111'')])]
   \<and> fst (snd (Tag example_env (store_of [], readonly_disk_of []) ''r.io/foo'' ''v1'' ''1111'' False False))
     \<noteq> store_of []"
proof -
  have "fst (Tag example_env (store_of [], readonly_disk_of []) ''r.io/foo'' ''v1'' ''1111'' False False)
     = Some WriteError"
    by code_simp
  moreover have "reload (store_of []) (readonly_disk_of []) = Inr (store_of [])"
    by (simp add: reload_def store_of_def readonly_disk_of_def)
  moreover have "Repositories (store_of []) = []"
    by (simp add: store_of_def)
  moreover have "Repositories (fst (snd (Tag example_env (store_of [], readonly_disk_of []) ''r.io/foo'' ''v1'' ''1111'' False False)))
     = [(''r.io/foo'', [(''v1'', ''1111'')])]"
    by code_simp
  ultimately show ?thesis by auto
qed

section \<open>Reads and the file\<close>

lemma map_of_unmarshal: "map_of (unmarshal doc repos) = map_of repos ++ map_of (rev doc)"
proof (induction doc arbitrary: repos)
  case Nil
  show ?case by simp
next
  case (Cons entry doc)
  obtain name r where entry: "entry = (name, r)" by (cases entry)
  have "map_of (unmarshal (entry # doc) repos) = map_of (AList.update name r repos) ++ map_of (rev doc)"
    by (simp add: entry Cons.IH)
  also have "\<dots> = map_of repos ++ (map_of [(name, r)] ++ map_of (rev doc))"
    by (simp add: update_conv' map_add_assoc [symmetric] map_add_upd_left)
  also have "\<dots> = map_of repos ++ map_of (rev (entry # doc))"
    by (simp add: entry map_of_append)
  finally show ?case .
qed

lemma Get_exact:
  assumes "contents f = Json doc" and "map_of (rev doc) repoName = Some r"
  shows "Get e (store, f) repoName
           = (Inr (Some r), store\<lparr>Repositories := unmarshal doc (Repositories store)\<rparr>)"
proof -
  have "map_of (unmarshal doc (Repositories store)) repoName = Some r"
    using assms(2) by (simp add: map_of_unmarshal)
  then show ?thesis
    using assms(1) by (simp add: Get_def reload_def getRepositoryList_def candidate_def)
qed

lemma Get_kept:
  assumes "contents f = Json doc" and "map_of (rev doc) repoName = None"
    and "map_of (Repositories store) repoName = Some r"
  shows "Get e (store, f) repoName
           = (Inr (Some r), store\<lparr>Repositories := unmarshal doc (Repositories store)\<rparr>)"
proof -
  have "map_of (unmarshal doc (Repositories store)) repoName = Some r"
    using assms(2,3) by (simp add: map_of_unmarshal map_add_def)
  then show ?thesis
    using assms(1) by (simp add: Get_def reload_def getRepositoryList_def candidate_def)
qed

text \<open>
  C6, as the code has it. \<^verbatim>\<open>Get\<close> reloads the file before it answers, and the reload adds
  the repositories of the file to the map in memory without removing any. So when the file
  holds a repository under the requested name (the last one, if the document repeats the
  name), \<^verbatim>\<open>Get\<close> returns it, whatever the store held in memory; and when the file holds none
  under that name and the map in memory does, \<^verbatim>\<open>Get\<close> returns the one in memory. \<^verbatim>\<open>GetImage\<close>
  and \<^verbatim>\<open>ByID\<close> do not reload: their answer is computed from the map in memory and is the
  same for every state of the file.
\<close>

theorem reads_and_the_file:
  "(contents f = Json doc \<and> map_of (rev doc) repoName = Some r \<longrightarrow>
      Get e (store, f) repoName
        = (Inr (Some r), store\<lparr>Repositories := unmarshal doc (Repositories store)\<rparr>))
   \<and> (contents f = Json doc \<and> map_of (rev doc) repoName = None
        \<and> map_of (Repositories store) repoName = Some r' \<longrightarrow>
      Get e (store, f) repoName
        = (Inr (Some r'), store\<lparr>Repositories := unmarshal doc (Repositories store)\<rparr>))
   \<and> GetImage e (store, f) repoName refOrID = GetImage e (store, f') repoName refOrID
   \<and> ByID e (store, f) = ByID e (store, f')"
  by (simp add: Get_exact Get_kept GetImage_def ByID_def)

theorem reads_and_the_file_witness:
  "fst (Get example_env (store_of [], disk_of foo_v1) ''r.io/foo'') = Inr (Some [(''v1'', ''1111'')])
   \<and> fst (Get example_env (store_of foo_v1, disk_of []) ''r.io/foo'') = Inr (Some [(''v1'', ''1111'')])
   \<and> GetImage example_env (store_of [], disk_of foo_v1) ''r.io/foo'' ''v1''
     = GetImage example_env (store_of [], disk_of []) ''r.io/foo'' ''v1''"
proof -
  have on_disk: "contents (disk_of foo_v1) = Json foo_v1"
    by (simp add: disk_of_def)
  have held: "map_of (rev foo_v1) ''r.io/foo'' = Some [(''v1'', ''1111'')]"
    by (simp add: foo_v1_def)
  have empty_disk: "contents (disk_of []) = Json []"
    by (simp add: disk_of_def)
  have not_held: "map_of (rev []) ''r.io/foo'' = (None :: Repository option)"
    by simp
  have in_memory: "map_of (Repositories (store_of foo_v1)) ''r.io/foo'' = Some [(''v1'', ''1111'')]"
    by (simp add: store_of_def foo_v1_def)
  note from_file = reads_and_the_file
    [where f = "disk_of foo_v1" and doc = foo_v1 and repoName = "''r.io/foo''" and r = "[(''v1'', ''1111'')]"
       and store = "store_of []" and e = example_env and refOrID = "''v1''" and f' = "disk_of []"]
  note from_memory = reads_and_the_file
    [where f = "disk_of []" and doc = "[]" and repoName = "''r.io/foo''" and store = "store_of foo_v1"
       and r' = "[(''v1'', ''1111'')]" and e = example_env]
  have "fst (Get example_env (store_of [], disk_of foo_v1) ''r.io/foo'') = Inr (Some [(''v1'', ''1111'')])"
    using from_file [THEN conjunct1, rule_format, OF conjI [OF on_disk held]] by simp
  moreover have "fst (Get example_env (store_of foo_v1, disk_of []) ''r.io/foo'') = Inr (Some [(''v1'', ''1111'')])"
    using from_memory [THEN conjunct2, THEN conjunct1, rule_format,
        OF conjI [OF empty_disk conjI [OF not_held in_memory]]]
    by simp
  moreover have "GetImage example_env (store_of [], disk_of foo_v1) ''r.io/foo'' ''v1''
     = GetImage example_env (store_of [], disk_of []) ''r.io/foo'' ''v1''"
    using from_file [THEN conjunct2, THEN conjunct2, THEN conjunct1] .
  ultimately show ?thesis by simp
qed

text \<open>
  C6 fails as stated. The file binds \<^verbatim>\<open>r.io/foo:v1\<close> to an image of the graph and the map in
  memory is empty: \<^verbatim>\<open>Get\<close> sees the repository; \<^verbatim>\<open>GetImage\<close> finds no image and \<^verbatim>\<open>ByID\<close> lists
  no name for the image, which they both do once the map in memory holds the binding. And
  the file holds no repository while the map in memory holds \<^verbatim>\<open>r.io/foo\<close>: \<^verbatim>\<open>Get\<close> reloads
  and still returns the repository that is not in the file, where a store with an empty map
  in memory returns none.
\<close>

theorem reads_reload_counterexample:
  "fst (Get example_env (store_of [], disk_of foo_v1) ''r.io/foo'') = Inr (Some [(''v1'', ''1111'')])
   \<and> GetImage example_env (store_of [], disk_of foo_v1) ''r.io/foo'' ''v1'' = Inr None
   \<and> GetImage example_env (store_of foo_v1, disk_of foo_v1) ''r.io/foo'' ''v1'' = Inr (Some \<lparr>ID = ''1111''\<rparr>)
   \<and> ByID example_env (store_of [], disk_of foo_v1) ''1111'' = None
   \<and> ByID example_env (store_of foo_v1, disk_of foo_v1) ''1111'' = Some [''r.io/foo:v1'']
   \<and> reload (store_of foo_v1) (disk_of []) = Inr (store_of foo_v1)
   \<and> fst (Get example_env (store_of foo_v1, disk_of []) ''r.io/foo'') = Inr (Some [(''v1'', ''1111'')])
   \<and> fst (Get example_env (store_of [], disk_of []) ''r.io/foo'') = Inr None"
proof -
  have "fst (Get example_env (store_of [], disk_of foo_v1) ''r.io/foo'') = Inr (Some [(''v1'', ''1111'')])"
    by code_simp
  moreover have "GetImage example_env (store_of [], disk_of foo_v1) ''r.io/foo'' ''v1'' = Inr None"
    by code_simp
  moreover have "GetImage example_env (store_of foo_v1, disk_of foo_v1) ''r.io/foo'' ''v1'' = Inr (Some \<lparr>ID = ''1111''\<rparr>)"
    by code_simp
  moreover have "ByID example_env (store_of [], disk_of foo_v1) ''1111'' = None"
    by code_simp
  moreover have "ByID example_env (store_of foo_v1, disk_of foo_v1) ''1111'' = Some [''r.io/foo:v1'']"
    by code_simp
  moreover have "reload (store_of foo_v1) (disk_of []) = Inr (store_of foo_v1)"
    by (simp add: reload_def store_of_def disk_of_def)
  moreover have "fst (Get example_env (store_of foo_v1, disk_of []) ''r.io/foo'') = Inr (Some [(''v1'', ''1111'')])"
    by code_simp
  moreover have "fst (Get example_env (store_of [], disk_of []) ''r.io/foo'') = Inr None"
    by code_simp
  ultimately show ?thesis by simp
qed

section \<open>The order of the candidates\<close>

lemma registry_loop_started:
  "0 < i \<Longrightarrow> registry_loop e repos repoName i regs
     = concat (map (\<lambda>reg. candidate repos (registry_NormalizeLocalName e (reg @ ''/'' @ repoName))) regs)"
  by (induction regs arbitrary: i) simp_all

lemma registry_loop_first_skipped:
  "registry_loop e repos repoName 0 regs
     = concat (map (\<lambda>reg. candidate repos (registry_NormalizeLocalName e (reg @ ''/'' @ repoName))) (tl regs))"
  by (cases regs) (simp_all add: registry_loop_started)

lemma getRepositoryList_groups:
  "getRepositoryList e store repoName
     = named_candidates e (Repositories store) repoName @ iterated_candidates e (Repositories store) repoName"
  by (simp add: getRepositoryList_def named_candidates_def iterated_candidates_def registry_loop_first_skipped)

lemma candidate_bindings: "map_of repos = map_of repos' \<Longrightarrow> candidate repos name = candidate repos' name"
  by (simp add: candidate_def)

lemma named_candidates_bindings:
  assumes "map_of repos = map_of repos'"
  shows "named_candidates e repos repoName = named_candidates e repos' repoName"
  by (simp add: named_candidates_def candidate_bindings [OF assms])

lemma iterated_candidates_bindings:
  assumes "distinct (map fst repos)" and "distinct (map fst repos')" and "map_of repos = map_of repos'"
  shows "mset (iterated_candidates e repos repoName) = mset (iterated_candidates e repos' repoName)"
proof -
  from assms have "set repos = set repos'"
    by (simp add: map_of_inject_set)
  moreover from assms(1,2) have "distinct repos" and "distinct repos'"
    by (simp_all add: distinct_map)
  ultimately have "mset repos = mset repos'"
    by (simp add: set_eq_iff_mset_eq_distinct)
  then show ?thesis
    by (simp add: iterated_candidates_def)
qed

lemma iterated_candidates_subseq: "subseq (iterated_candidates e repos repoName) repos"
  by (simp add: iterated_candidates_def)

lemma example_bindings_ab_ba: "map_of ab_foo = map_of ba_foo"
  by (rule ext) (simp add: ab_foo_def ba_foo_def)

text \<open>
  C3, as the code has it. The list returned by \<^verbatim>\<open>getRepositoryList\<close> is, in this order: the
  exact match, the match after normalization, for a name without index the matches under
  the registries of the registry list after its first entry, in list order, and then, for
  a name without index, the other entries with a non-default index and the same remote
  name, in the order in which the map is iterated. For two stores with the same bindings
  the part found by name is the same list, and the part found by iteration has the same
  entries, each as often, in an order that follows the iteration order of each map.
\<close>

theorem getRepositoryList_order:
  assumes "distinct (map fst (Repositories store))" and "distinct (map fst (Repositories store'))"
    and "map_of (Repositories store) = map_of (Repositories store')"
  shows "getRepositoryList e store repoName
           = named_candidates e (Repositories store) repoName
             @ iterated_candidates e (Repositories store) repoName
         \<and> getRepositoryList e store' repoName
           = named_candidates e (Repositories store) repoName
             @ iterated_candidates e (Repositories store') repoName
         \<and> mset (iterated_candidates e (Repositories store') repoName)
           = mset (iterated_candidates e (Repositories store) repoName)
         \<and> subseq (iterated_candidates e (Repositories store) repoName) (Repositories store)
         \<and> subseq (iterated_candidates e (Repositories store') repoName) (Repositories store')"
  using assms
  by (simp add: getRepositoryList_groups named_candidates_bindings [OF assms(3)]
        iterated_candidates_bindings [OF assms] iterated_candidates_subseq)

theorem getRepositoryList_order_witness:
  "getRepositoryList example_env (store_of ab_foo) ''foo''
     = named_candidates example_env ab_foo ''foo'' @ iterated_candidates example_env ab_foo ''foo''
   \<and> getRepositoryList example_env (store_of ba_foo) ''foo''
     = named_candidates example_env ab_foo ''foo'' @ iterated_candidates example_env ba_foo ''foo''
   \<and> mset (iterated_candidates example_env ba_foo ''foo'') = mset (iterated_candidates example_env ab_foo ''foo'')"
proof -
  have ab: "distinct (map fst (Repositories (store_of ab_foo)))"
    by (simp add: store_of_def ab_foo_def)
  have ba: "distinct (map fst (Repositories (store_of ba_foo)))"
    by (simp add: store_of_def ba_foo_def)
  have same: "map_of (Repositories (store_of ab_foo)) = map_of (Repositories (store_of ba_foo))"
    by (simp add: store_of_def example_bindings_ab_ba)
  have repos: "Repositories (store_of repos) = repos" for repos
    by (simp add: store_of_def)
  show ?thesis
    using getRepositoryList_order [OF ab ba same, of example_env "''foo''"]
    by (simp add: repos)
qed

text \<open>
  C3 fails as stated. Two stores with the same bindings, whose maps are iterated in
  different orders, give different lists; and for a name that is its own normal form the
  list holds the same repository twice.
\<close>

theorem getRepositoryList_counterexample:
  "map_of (Repositories (store_of ab_foo)) = map_of (Repositories (store_of ba_foo))
   \<and> getRepositoryList example_env (store_of ab_foo) ''foo''
     = [(''a.io/foo'', [(''v1'', ''1111'')]), (''b.io/foo'', [(''v1'', ''2222'')])]
   \<and> getRepositoryList example_env (store_of ba_foo) ''foo''
     = [(''b.io/foo'', [(''v1'', ''2222'')]), (''a.io/foo'', [(''v1'', ''1111'')])]
   \<and> getRepositoryList example_env (store_of foo_v1) ''r.io/foo''
     = [(''r.io/foo'', [(''v1'', ''1111'')]), (''r.io/foo'', [(''v1'', ''1111'')])]"
proof -
  have "map_of (Repositories (store_of ab_foo)) = map_of (Repositories (store_of ba_foo))"
    by (simp add: store_of_def example_bindings_ab_ba)
  moreover have "getRepositoryList example_env (store_of ab_foo) ''foo''
     = [(''a.io/foo'', [(''v1'', ''1111'')]), (''b.io/foo'', [(''v1'', ''2222'')])]"
    by code_simp
  moreover have "getRepositoryList example_env (store_of ba_foo) ''foo''
     = [(''b.io/foo'', [(''v1'', ''2222'')]), (''a.io/foo'', [(''v1'', ''1111'')])]"
    by code_simp
  moreover have "getRepositoryList example_env (store_of foo_v1) ''r.io/foo''
     = [(''r.io/foo'', [(''v1'', ''1111'')]), (''r.io/foo'', [(''v1'', ''1111'')])]"
    by code_simp
  ultimately show ?thesis by simp
qed

section \<open>Deleting every reference to an image\<close>

text \<open>
  C4 at two stores whose file holds what the memory holds. In the first, \<^verbatim>\<open>localhost:5000\<close>
  is tagged \<^verbatim>\<open>v1\<close> for the image \<^verbatim>\<open>1111\<close> and \<^verbatim>\<open>localhost\<close> is tagged \<^verbatim>\<open>5000\<close> for another
  image: \<^verbatim>\<open>DeleteAll\<close> of \<^verbatim>\<open>1111\<close> splits the name \<^verbatim>\<open>localhost:5000:v1\<close> at its first two
  colons, deletes the tag \<^verbatim>\<open>5000\<close> of \<^verbatim>\<open>localhost\<close> and returns no error, and the reference
  to \<^verbatim>\<open>1111\<close> is still there. In the second, \<^verbatim>\<open>localhost:5000/img\<close> is tagged \<^verbatim>\<open>v1\<close>:
  \<^verbatim>\<open>DeleteAll\<close> looks for a repository \<^verbatim>\<open>localhost\<close>, returns an error and deletes nothing.
\<close>

theorem DeleteAll_colon_in_name:
  "ByID example_env (store_of port_and_host, disk_of port_and_host) ''1111'' = Some [''localhost:5000:v1'']
   \<and> fst (DeleteAll example_env (store_of port_and_host, disk_of port_and_host) ''1111'') = None
   \<and> Repositories (fst (snd (DeleteAll example_env (store_of port_and_host, disk_of port_and_host) ''1111'')))
     = [(''localhost:5000'', [(''v1'', ''1111'')])]
   \<and> fst (DeleteAll example_env (store_of port_img, disk_of port_img) ''1111'')
     = Some (NoSuchRepository ''localhost'')
   \<and> Repositories (fst (snd (DeleteAll example_env (store_of port_img, disk_of port_img) ''1111'')))
     = [(''localhost:5000/img'', [(''v1'', ''1111'')])]"
proof -
  have "ByID example_env (store_of port_and_host, disk_of port_and_host) ''1111'' = Some [''localhost:5000:v1'']"
    by code_simp
  moreover have "fst (DeleteAll example_env (store_of port_and_host, disk_of port_and_host) ''1111'') = None"
    by code_simp
  moreover have "Repositories (fst (snd (DeleteAll example_env (store_of port_and_host, disk_of port_and_host) ''1111'')))
     = [(''localhost:5000'', [(''v1'', ''1111'')])]"
    by code_simp
  moreover have "fst (DeleteAll example_env (store_of port_img, disk_of port_img) ''1111'')
     = Some (NoSuchRepository ''localhost'')"
    by code_simp
  moreover have "Repositories (fst (snd (DeleteAll example_env (store_of port_img, disk_of port_img) ''1111'')))
     = [(''localhost:5000/img'', [(''v1'', ''1111'')])]"
    by code_simp
  ultimately show ?thesis by simp
qed

section \<open>Validation of digests\<close>

lemma match_here_anchored: "match_here True r s = matches r s"
  by (induction s arbitrary: r) simp_all

lemma match_here_prefix: "match_here False r s = (\<exists>p. prefix p s \<and> matches r p)"
proof (induction s arbitrary: r)
  case Nil
  show ?case by simp
next
  case (Cons c cs)
  have "(\<exists>p. prefix p (c # cs) \<and> matches r p)
      = (matches r [] \<or> (\<exists>p. prefix p cs \<and> matches r (c # p)))"
    by (auto simp: prefix_Cons)
  then show ?case
    by (simp add: Cons.IH)
qed

lemma match_from_substring: "match_from False r s = (\<exists>u v w. s = u @ v @ w \<and> matches r v)"
proof (induction s)
  case Nil
  show ?case by simp
next
  case (Cons c cs)
  have here: "match_here False r (c # cs) = (\<exists>v w. c # cs = v @ w \<and> matches r v)"
    unfolding match_here_prefix by (auto simp: prefix_def)
  have "(\<exists>u v w. c # cs = u @ v @ w \<and> matches r v)
      = ((\<exists>v w. c # cs = v @ w \<and> matches r v) \<or> (\<exists>u v w. cs = u @ v @ w \<and> matches r v))"
  proof
    assume "\<exists>u v w. c # cs = u @ v @ w \<and> matches r v"
    then obtain u v w where split: "c # cs = u @ v @ w" and m: "matches r v" by blast
    show "(\<exists>v w. c # cs = v @ w \<and> matches r v) \<or> (\<exists>u v w. cs = u @ v @ w \<and> matches r v)"
    proof (cases u)
      case Nil
      with split m show ?thesis by auto
    next
      case (Cons c' u')
      with split have "cs = u' @ v @ w" by simp
      with m show ?thesis by blast
    qed
  next
    assume "(\<exists>v w. c # cs = v @ w \<and> matches r v) \<or> (\<exists>u v w. cs = u @ v @ w \<and> matches r v)"
    then show "\<exists>u v w. c # cs = u @ v @ w \<and> matches r v"
    proof
      assume "\<exists>v w. c # cs = v @ w \<and> matches r v"
      then obtain v w where "c # cs = [] @ v @ w" and "matches r v" by auto
      then show ?thesis by blast
    next
      assume "\<exists>u v w. cs = u @ v @ w \<and> matches r v"
      then obtain u v w where "c # cs = (c # u) @ v @ w" and "matches r v" by auto
      then show ?thesis by blast
    qed
  qed
  then show ?case
    by (simp only: match_from.simps here Cons.IH)
qed

lemma validateRepoName_accepts: "(validateRepoName name = None) = (name \<noteq> [] \<and> name \<noteq> ''scratch'')"
  by (simp add: validateRepoName_def)

lemma ValidateTagName_accepts: "(ValidateTagName name = None) = matches (body validTagName) name"
proof (cases name)
  case Nil
  then show ?thesis
    by (simp add: ValidateTagName_def validTagName_def)
next
  case (Cons c cs)
  then show ?thesis
    by (simp add: ValidateTagName_def validTagName_def match_here_anchored del: match_here.simps)
qed

lemma validateDigest_accepts:
  "(validateDigest dgst = None) = (\<exists>u v w. dgst = u @ v @ w \<and> matches (body validDigest) v)"
proof (cases dgst)
  case Nil
  then show ?thesis
    by (simp add: validateDigest_def validDigest_def Some1_def)
next
  case (Cons c cs)
  then show ?thesis
    by (simp add: validateDigest_def validDigest_def match_from_substring del: match_from.simps)
qed

text \<open>
  C9 at the digest \<^verbatim>\<open>?sha256:ab?\<close>, which contains a match of the pattern of \<^verbatim>\<open>validDigest\<close>
  and is not one: \<^verbatim>\<open>validateDigest\<close> accepts it and \<^verbatim>\<open>SetDigest\<close> binds it. The tag pattern
  is anchored: \<^verbatim>\<open>ValidateTagName\<close> rejects \<^verbatim>\<open>?v1?\<close>.
\<close>

theorem validateDigest_accepts_substring_match:
  "\<not> matches (body validDigest) ''?sha256:ab?''
   \<and> matches (body validDigest) ''sha256:ab''
   \<and> validateDigest ''?sha256:ab?'' = None
   \<and> fst (SetDigest example_env (store_of [], disk_of []) ''r.io/foo'' ''?sha256:ab?'' ''1111'' False) = None
   \<and> Repositories (fst (snd (SetDigest example_env (store_of [], disk_of []) ''r.io/foo'' ''?sha256:ab?'' ''1111'' False)))
     = [(''r.io/foo'', [(''?sha256:ab?'', ''1111'')])]
   \<and> ValidateTagName ''?v1?'' = Some (IllegalTagName ''?v1?'')"
proof -
  have "\<not> matches (body validDigest) ''?sha256:ab?''"
    by code_simp
  moreover have "matches (body validDigest) ''sha256:ab''"
    by code_simp
  moreover have "validateDigest ''?sha256:ab?'' = None"
    by code_simp
  moreover have "fst (SetDigest example_env (store_of [], disk_of []) ''r.io/foo'' ''?sha256:ab?'' ''1111'' False) = None"
    by code_simp
  moreover have "Repositories (fst (snd (SetDigest example_env (store_of [], disk_of []) ''r.io/foo'' ''?sha256:ab?'' ''1111'' False)))
     = [(''r.io/foo'', [(''?sha256:ab?'', ''1111'')])]"
    by code_simp
  moreover have "ValidateTagName ''?v1?'' = Some (IllegalTagName ''?v1?'')"
    by code_simp
  ultimately show ?thesis by simp
qed

section \<open>The pools\<close>

lemma pools_ok_created:
  "pullingPool store = Map.empty \<Longrightarrow> pushingPool store = Map.empty \<Longrightarrow> pools_ok (store, chans)"
  by (simp add: pools_ok_def)

lemma pools_okI:
  assumes "\<And>key c. pull key = Some c \<Longrightarrow> push key = None"
    and "\<And>key c. pull key = Some c \<Longrightarrow> c < length chans \<and> \<not> chans ! c"
    and "\<And>key c. push key = Some c \<Longrightarrow> c < length chans \<and> \<not> chans ! c"
    and "\<And>key key' c. pull key = Some c \<Longrightarrow> pull key' = Some c \<Longrightarrow> key = key'"
    and "\<And>key key' c. push key = Some c \<Longrightarrow> push key' = Some c \<Longrightarrow> key = key'"
    and "\<And>key key' c. pull key = Some c \<Longrightarrow> push key' = Some c \<Longrightarrow> False"
  shows "pools_ok (store\<lparr>pullingPool := pull, pushingPool := push\<rparr>, chans)"
proof -
  have disj: "dom pull \<inter> dom push = {}"
    using assms(1) by fastforce
  have old: "\<forall>key c. pull key = Some c \<or> push key = Some c \<longrightarrow> c < length chans \<and> \<not> chans ! c"
    using assms(2,3) by blast
  have inj: "\<forall>key key' c. (pull key = Some c \<or> push key = Some c)
      \<and> (pull key' = Some c \<or> push key' = Some c) \<longrightarrow> key = key'"
    using assms(4,5,6) by blast
  show ?thesis
    unfolding pools_ok_def using disj old inj by simp
qed

lemma pools_okD:
  assumes "pools_ok (store, chans)"
  shows "pullingPool store key = Some c \<Longrightarrow> pushingPool store key = None"
    and "pullingPool store key = Some c \<Longrightarrow> c < length chans \<and> \<not> chans ! c"
    and "pushingPool store key = Some c \<Longrightarrow> c < length chans \<and> \<not> chans ! c"
    and "pullingPool store key = Some c \<Longrightarrow> pullingPool store key' = Some c \<Longrightarrow> key = key'"
    and "pushingPool store key = Some c \<Longrightarrow> pushingPool store key' = Some c \<Longrightarrow> key = key'"
    and "pullingPool store key = Some c \<Longrightarrow> pushingPool store key' = Some c \<Longrightarrow> False"
proof -
  from assms have all: "dom (pullingPool store) \<inter> dom (pushingPool store) = {}
      \<and> (\<forall>key c. pullingPool store key = Some c \<or> pushingPool store key = Some c
            \<longrightarrow> c < length chans \<and> \<not> chans ! c)
      \<and> (\<forall>key key' c. (pullingPool store key = Some c \<or> pushingPool store key = Some c)
            \<and> (pullingPool store key' = Some c \<or> pushingPool store key' = Some c)
            \<longrightarrow> key = key')"
    unfolding pools_ok_def fst_conv snd_conv .
  then have disj: "dom (pullingPool store) \<inter> dom (pushingPool store) = {}"
    by blast
  from all have old: "pullingPool store k = Some c \<or> pushingPool store k = Some c
      \<Longrightarrow> c < length chans \<and> \<not> chans ! c" for k c
    by blast
  from all have inj: "(pullingPool store k = Some c \<or> pushingPool store k = Some c)
      \<and> (pullingPool store k' = Some c \<or> pushingPool store k' = Some c) \<Longrightarrow> k = k'" for k k' c
    by blast
  show "pullingPool store key = Some c \<Longrightarrow> pushingPool store key = None"
    using disj by (cases "pushingPool store key") auto
  show "pullingPool store key = Some c \<Longrightarrow> c < length chans \<and> \<not> chans ! c"
    using old by blast
  show "pushingPool store key = Some c \<Longrightarrow> c < length chans \<and> \<not> chans ! c"
    using old by blast
  show "pullingPool store key = Some c \<Longrightarrow> pullingPool store key' = Some c \<Longrightarrow> key = key'"
    using inj by blast
  show "pushingPool store key = Some c \<Longrightarrow> pushingPool store key' = Some c \<Longrightarrow> key = key'"
    using inj by blast
  show "pullingPool store key = Some c \<Longrightarrow> pushingPool store key' = Some c \<Longrightarrow> False"
  proof -
    assume a: "pullingPool store key = Some c" "pushingPool store key' = Some c"
    with inj have "key = key'" by blast
    with a disj show False by auto
  qed
qed

lemma pools_ok_make_pull:
  assumes ok: "pools_ok (store, chans)"
    and free: "pullingPool store key = None" "pushingPool store key = None"
  shows "pools_ok (store\<lparr>pullingPool := (pullingPool store)(key \<mapsto> length chans)\<rparr>, chans @ [False])"
proof -
  note d = pools_okD [OF ok]
  have "pools_ok (store\<lparr>pullingPool := (pullingPool store)(key \<mapsto> length chans), pushingPool := pushingPool store\<rparr>,
          chans @ [False])"
  proof (rule pools_okI)
    fix k c assume "((pullingPool store)(key \<mapsto> length chans)) k = Some c"
    then show "pushingPool store k = None"
      using d(1) free by (auto split: if_splits)
  next
    fix k c assume "((pullingPool store)(key \<mapsto> length chans)) k = Some c"
    then show "c < length (chans @ [False]) \<and> \<not> (chans @ [False]) ! c"
      using d(2) by (auto simp: nth_append less_Suc_eq split: if_splits)
  next
    fix k c assume "pushingPool store k = Some c"
    then show "c < length (chans @ [False]) \<and> \<not> (chans @ [False]) ! c"
      using d(3) by (auto simp: nth_append less_Suc_eq)
  next
    fix k k' c
    assume "((pullingPool store)(key \<mapsto> length chans)) k = Some c"
      and "((pullingPool store)(key \<mapsto> length chans)) k' = Some c"
    then show "k = k'"
      using d(2) d(4) by (fastforce split: if_splits)
  next
    fix k k' c assume "pushingPool store k = Some c" and "pushingPool store k' = Some c"
    then show "k = k'" using d(5) by blast
  next
    fix k k' c
    assume "((pullingPool store)(key \<mapsto> length chans)) k = Some c" and "pushingPool store k' = Some c"
    then show False
      using d(3) d(6) by (fastforce split: if_splits)
  qed
  then show ?thesis by simp
qed

lemma pools_ok_make_push:
  assumes ok: "pools_ok (store, chans)"
    and free: "pullingPool store key = None" "pushingPool store key = None"
  shows "pools_ok (store\<lparr>pushingPool := (pushingPool store)(key \<mapsto> length chans)\<rparr>, chans @ [False])"
proof -
  note d = pools_okD [OF ok]
  have "pools_ok (store\<lparr>pullingPool := pullingPool store, pushingPool := (pushingPool store)(key \<mapsto> length chans)\<rparr>,
          chans @ [False])"
  proof (rule pools_okI)
    fix k c assume "pullingPool store k = Some c"
    then show "((pushingPool store)(key \<mapsto> length chans)) k = None"
      using d(1) free by auto
  next
    fix k c assume "pullingPool store k = Some c"
    then show "c < length (chans @ [False]) \<and> \<not> (chans @ [False]) ! c"
      using d(2) by (auto simp: nth_append less_Suc_eq)
  next
    fix k c assume "((pushingPool store)(key \<mapsto> length chans)) k = Some c"
    then show "c < length (chans @ [False]) \<and> \<not> (chans @ [False]) ! c"
      using d(3) by (auto simp: nth_append less_Suc_eq split: if_splits)
  next
    fix k k' c assume "pullingPool store k = Some c" and "pullingPool store k' = Some c"
    then show "k = k'" using d(4) by blast
  next
    fix k k' c
    assume "((pushingPool store)(key \<mapsto> length chans)) k = Some c"
      and "((pushingPool store)(key \<mapsto> length chans)) k' = Some c"
    then show "k = k'"
      using d(3) d(5) by (fastforce split: if_splits)
  next
    fix k k' c
    assume "pullingPool store k = Some c" and "((pushingPool store)(key \<mapsto> length chans)) k' = Some c"
    then show False
      using d(2) d(6) by (fastforce split: if_splits)
  qed
  then show ?thesis by simp
qed

lemma pools_ok_make_none:
  assumes ok: "pools_ok (store, chans)"
  shows "pools_ok (store, chans @ [b])"
proof -
  note d = pools_okD [OF ok]
  have "pools_ok (store\<lparr>pullingPool := pullingPool store, pushingPool := pushingPool store\<rparr>, chans @ [b])"
  proof (rule pools_okI)
    fix k c assume "pullingPool store k = Some c"
    then show "c < length (chans @ [b]) \<and> \<not> (chans @ [b]) ! c"
      using d(2) by (auto simp: nth_append less_Suc_eq)
  next
    fix k c assume "pushingPool store k = Some c"
    then show "c < length (chans @ [b]) \<and> \<not> (chans @ [b]) ! c"
      using d(3) by (auto simp: nth_append less_Suc_eq)
  qed (use d in blast)+
  then show ?thesis by simp
qed

lemma pools_ok_poolAdd:
  assumes "pools_ok w"
  shows "pools_ok (snd (poolAdd w kind key))"
proof -
  obtain store chans where w: "w = (store, chans)" by (cases w)
  with assms have ok: "pools_ok (store, chans)" by simp
  show ?thesis
  proof (cases "pullingPool store key = None \<and> pushingPool store key = None")
    case False
    with ok show ?thesis
      by (auto simp: w poolAdd_def split: option.splits)
  next
    case True
    with ok show ?thesis
      by (simp add: w poolAdd_def make_chan_def pools_ok_make_pull pools_ok_make_push pools_ok_make_none)
  qed
qed
lemma pools_ok_close_pull:
  assumes ok: "pools_ok (store, chans)" and held: "pullingPool store key = Some c"
  shows "pools_ok (store\<lparr>pullingPool := (pullingPool store)(key := None)\<rparr>, chans[c := True])"
proof -
  note d = pools_okD [OF ok]
  have "pools_ok (store\<lparr>pullingPool := (pullingPool store)(key := None), pushingPool := pushingPool store\<rparr>,
          chans[c := True])"
  proof (rule pools_okI)
    fix k c' assume "((pullingPool store)(key := None)) k = Some c'"
    then show "pushingPool store k = None"
      using d(1) by (auto split: if_splits)
  next
    fix k c' assume a: "((pullingPool store)(key := None)) k = Some c'"
    then have "k \<noteq> key" and "pullingPool store k = Some c'" by (auto split: if_splits)
    with held d(4) have "c' \<noteq> c" by blast
    with \<open>pullingPool store k = Some c'\<close> d(2) show "c' < length (chans[c := True]) \<and> \<not> chans[c := True] ! c'"
      by (auto simp: nth_list_update)
  next
    fix k c' assume a: "pushingPool store k = Some c'"
    with held d(6) have "c' \<noteq> c" by blast
    with a d(3) show "c' < length (chans[c := True]) \<and> \<not> chans[c := True] ! c'"
      by (auto simp: nth_list_update)
  next
    fix k k' c'
    assume "((pullingPool store)(key := None)) k = Some c'" and "((pullingPool store)(key := None)) k' = Some c'"
    then show "k = k'"
      using d(4) by (fastforce split: if_splits)
  next
    fix k k' c' assume "pushingPool store k = Some c'" and "pushingPool store k' = Some c'"
    then show "k = k'" using d(5) by blast
  next
    fix k k' c'
    assume "((pullingPool store)(key := None)) k = Some c'" and "pushingPool store k' = Some c'"
    then show False
      using d(6) by (fastforce split: if_splits)
  qed
  then show ?thesis by simp
qed

lemma pools_ok_close_push:
  assumes ok: "pools_ok (store, chans)" and held: "pushingPool store key = Some c"
  shows "pools_ok (store\<lparr>pushingPool := (pushingPool store)(key := None)\<rparr>, chans[c := True])"
proof -
  note d = pools_okD [OF ok]
  have "pools_ok (store\<lparr>pullingPool := pullingPool store, pushingPool := (pushingPool store)(key := None)\<rparr>,
          chans[c := True])"
  proof (rule pools_okI)
    fix k c' assume "pullingPool store k = Some c'"
    then show "((pushingPool store)(key := None)) k = None"
      using d(1) by auto
  next
    fix k c' assume a: "pullingPool store k = Some c'"
    with held d(6) have "c' \<noteq> c" by blast
    with a d(2) show "c' < length (chans[c := True]) \<and> \<not> chans[c := True] ! c'"
      by (auto simp: nth_list_update)
  next
    fix k c' assume a: "((pushingPool store)(key := None)) k = Some c'"
    then have "k \<noteq> key" and "pushingPool store k = Some c'" by (auto split: if_splits)
    with held d(5) have "c' \<noteq> c" by blast
    with \<open>pushingPool store k = Some c'\<close> d(3) show "c' < length (chans[c := True]) \<and> \<not> chans[c := True] ! c'"
      by (auto simp: nth_list_update)
  next
    fix k k' c' assume "pullingPool store k = Some c'" and "pullingPool store k' = Some c'"
    then show "k = k'" using d(4) by blast
  next
    fix k k' c'
    assume "((pushingPool store)(key := None)) k = Some c'" and "((pushingPool store)(key := None)) k' = Some c'"
    then show "k = k'"
      using d(5) by (fastforce split: if_splits)
  next
    fix k k' c'
    assume "pullingPool store k = Some c'" and "((pushingPool store)(key := None)) k' = Some c'"
    then show False
      using d(6) by (fastforce split: if_splits)
  qed
  then show ?thesis by simp
qed

lemma pools_ok_poolRemove:
  assumes "pools_ok w"
  shows "pools_ok (snd (poolRemove w kind key))"
proof -
  obtain store chans where w: "w = (store, chans)" by (cases w)
  with assms have ok: "pools_ok (store, chans)" by simp
  note d = pools_okD [OF ok]
  show ?thesis
    using ok d(2) d(3)
    by (auto simp: w poolRemove_def close_chan_def pools_ok_close_pull pools_ok_close_push
          split: option.splits)
qed

lemma pools_ok_stored: "pools_ok (store, chans) \<Longrightarrow> pools_ok (store\<lparr>Repositories := repos\<rparr>, chans)"
  by (simp add: pools_ok_def)

lemma pool_reachable_ok: "pool_reachable w \<Longrightarrow> pools_ok w"
  by (induction rule: pool_reachable.induct)
     (simp_all add: pools_ok_created pools_ok_poolAdd pools_ok_poolRemove pools_ok_stored)

lemma poolAdd_held_pull:
  "pullingPool store key = Some c \<Longrightarrow>
     poolAdd (store, chans) kind key = ((Some c, Some (InProgress ''pull'' key)), store, chans)"
  by (simp add: poolAdd_def)

lemma poolAdd_held_push:
  "pullingPool store key = None \<Longrightarrow> pushingPool store key = Some c \<Longrightarrow>
     poolAdd (store, chans) kind key = ((Some c, Some (InProgress ''push'' key)), store, chans)"
  by (simp add: poolAdd_def)

text \<open>
  C7. In every state that the pools can be in, for a kind that is \<^verbatim>\<open>pull\<close> or \<^verbatim>\<open>push\<close> and
  every key: no key is in both pools. When the key is in the pool of that kind, \<^verbatim>\<open>poolAdd\<close>
  returns the channel held there with the error that the transfer of that kind is in
  progress, and changes nothing. When the key is in the pool of the other kind, \<^verbatim>\<open>poolAdd\<close>
  returns the error that the transfer of the other kind is in progress, and changes
  nothing. When the key is in neither pool, \<^verbatim>\<open>poolAdd\<close> returns without error a channel that
  was not there before, is not closed and is held by no pool, and stores it under the key in
  the pool of that kind only. When the key is in the pool of that kind, \<^verbatim>\<open>poolRemove\<close>
  closes the channel, which was not closed, removes the key from that pool and returns no
  error.
\<close>

theorem pool_operations:
  assumes "pool_reachable (store, chans)" and "kind = ''pull'' \<or> kind = ''push''"
  shows "dom (pullingPool store) \<inter> dom (pushingPool store) = {}
    \<and> (\<forall>c. pool kind store key = Some c \<longrightarrow>
          poolAdd (store, chans) kind key = ((Some c, Some (InProgress kind key)), store, chans))
    \<and> (\<forall>c. pool (other_kind kind) store key = Some c \<longrightarrow>
          poolAdd (store, chans) kind key = ((Some c, Some (InProgress (other_kind kind) key)), store, chans))
    \<and> (pool kind store key = None \<and> pool (other_kind kind) store key = None \<longrightarrow>
          (\<exists>store'. poolAdd (store, chans) kind key = ((Some (length chans), None), store', chans @ [False])
             \<and> pool kind store' = (pool kind store)(key \<mapsto> length chans)
             \<and> pool (other_kind kind) store' = pool (other_kind kind) store
             \<and> (\<forall>k. pullingPool store k \<noteq> Some (length chans) \<and> pushingPool store k \<noteq> Some (length chans))))
    \<and> (\<forall>c. pool kind store key = Some c \<longrightarrow>
          \<not> chans ! c
          \<and> (\<exists>store'. poolRemove (store, chans) kind key = (None, store', chans[c := True])
                \<and> chans[c := True] ! c
                \<and> pool kind store' = (pool kind store)(key := None)
                \<and> pool (other_kind kind) store' = pool (other_kind kind) store))"
proof -
  have ok: "pools_ok (store, chans)"
    using assms(1) by (rule pool_reachable_ok)
  note d = pools_okD [OF ok]
  have disj: "dom (pullingPool store) \<inter> dom (pushingPool store) = {}"
    using ok by (simp add: pools_ok_def)
  have fresh: "pullingPool store k \<noteq> Some (length chans) \<and> pushingPool store k \<noteq> Some (length chans)" for k
    using d(2) [of k "length chans"] d(3) [of k "length chans"] by auto
  from assms(2) show ?thesis
  proof
    assume kind: "kind = ''pull''"
    have same: "poolAdd (store, chans) kind key = ((Some c, Some (InProgress kind key)), store, chans)"
      if "pullingPool store key = Some c" for c
      using that by (simp add: kind poolAdd_held_pull)
    have other: "poolAdd (store, chans) kind key = ((Some c, Some (InProgress ''push'' key)), store, chans)"
      if "pushingPool store key = Some c" for c
    proof -
      from that disj have "pullingPool store key = None"
        by (cases "pullingPool store key") auto
      with that show ?thesis by (simp add: poolAdd_held_push)
    qed
    have release: "\<not> chans ! c \<and> poolRemove (store, chans) kind key
        = (None, store\<lparr>pullingPool := (pullingPool store)(key := None)\<rparr>, chans[c := True])
        \<and> chans[c := True] ! c"
      if "pullingPool store key = Some c" for c
      using that d(2) [OF that] by (simp add: kind poolRemove_def close_chan_def)
    show ?thesis
      using disj same other fresh release
      by (auto simp: kind pool_def other_kind_def poolAdd_def make_chan_def)
  next
    assume kind: "kind = ''push''"
    have same: "poolAdd (store, chans) kind key = ((Some c, Some (InProgress kind key)), store, chans)"
      if "pushingPool store key = Some c" for c
    proof -
      from that disj have "pullingPool store key = None"
        by (cases "pullingPool store key") auto
      with that show ?thesis by (simp add: kind poolAdd_held_push)
    qed
    have other: "poolAdd (store, chans) kind key = ((Some c, Some (InProgress ''pull'' key)), store, chans)"
      if "pullingPool store key = Some c" for c
      using that by (simp add: poolAdd_held_pull)
    have release: "\<not> chans ! c \<and> poolRemove (store, chans) kind key
        = (None, store\<lparr>pushingPool := (pushingPool store)(key := None)\<rparr>, chans[c := True])
        \<and> chans[c := True] ! c"
      if "pushingPool store key = Some c" for c
      using that d(3) [OF that] by (simp add: kind poolRemove_def close_chan_def)
    show ?thesis
      using disj same other fresh release
      by (auto simp: kind pool_def other_kind_def poolAdd_def make_chan_def)
  qed
qed

theorem pool_operations_witness:
  "fst (poolAdd (store_of [], []) ''pull'' ''k'') = (Some 0, None)
   \<and> snd (snd (poolAdd (store_of [], []) ''pull'' ''k'')) = [False]
   \<and> poolAdd (pulling_k, [False]) ''pull'' ''k'' = ((Some 0, Some (InProgress ''pull'' ''k'')), pulling_k, [False])
   \<and> poolAdd (pulling_k, [False]) ''push'' ''k'' = ((Some 0, Some (InProgress ''pull'' ''k'')), pulling_k, [False])
   \<and> fst (poolRemove (pulling_k, [False]) ''pull'' ''k'') = None
   \<and> snd (snd (poolRemove (pulling_k, [False]) ''pull'' ''k'')) = [True]"
proof -
  have start: "pool_reachable (store_of [], [])"
    by (rule pool_reachable.created) (simp_all add: store_of_def)
  have first: "poolAdd (store_of [], []) ''pull'' ''k'' = ((Some 0, None), pulling_k, [False])"
    by (simp add: poolAdd_def make_chan_def store_of_def pulling_k_def)
  from pool_reachable.added [OF start, of "''pull''" "''k''"]
  have pulling: "pool_reachable (pulling_k, [False])"
    by (simp add: first)
  have pull: "''pull'' = ''pull'' \<or> ''pull'' = ''push''" by simp
  have push: "''push'' = ''pull'' \<or> ''push'' = ''push''" by simp
  have held: "pool ''pull'' pulling_k ''k'' = Some 0" "pool (other_kind ''push'') pulling_k ''k'' = Some 0"
    by (simp_all add: pool_def other_kind_def pulling_k_def)
  have free: "pool ''pull'' (store_of []) ''k'' = None" "pool (other_kind ''pull'') (store_of []) ''k'' = None"
    by (simp_all add: pool_def other_kind_def store_of_def)
  note at_start = pool_operations [OF start pull, of "''k''"]
  note at_pull = pool_operations [OF pulling pull, of "''k''"]
  note at_push = pool_operations [OF pulling push, of "''k''"]
  from at_start [THEN conjunct2, THEN conjunct2, THEN conjunct2, THEN conjunct1, rule_format,
      OF conjI [OF free]]
  obtain store1 where
    acquired: "poolAdd (store_of [], []) ''pull'' ''k'' = ((Some 0, None), store1, [False])"
    by auto
  from at_pull [THEN conjunct2, THEN conjunct1, rule_format, OF held(1)]
  have same: "poolAdd (pulling_k, [False]) ''pull'' ''k''
      = ((Some 0, Some (InProgress ''pull'' ''k'')), pulling_k, [False])" .
  from at_push [THEN conjunct2, THEN conjunct2, THEN conjunct1, rule_format, OF held(2)]
  have other: "poolAdd (pulling_k, [False]) ''push'' ''k''
      = ((Some 0, Some (InProgress (other_kind ''push'') ''k'')), pulling_k, [False])" .
  from at_pull [THEN conjunct2, THEN conjunct2, THEN conjunct2, THEN conjunct2, rule_format, OF held(1)]
  obtain store2 where
    released: "poolRemove (pulling_k, [False]) ''pull'' ''k'' = (None, store2, [True])"
    by auto
  show ?thesis
    by (simp add: acquired same other released other_kind_def)
qed

end
